theory Spec2Isabelle
  imports Complex_Main "HOL-Library.AList" "HOL-Library.Multiset"
begin

section \<open>Thumbnail grid of the media results panel\<close>

text \<open>
  A shallow embedding of the selection state machine of \<open>MediaPanel\<close> and of the canvas
  page cache, geometry, hit testing and fade scheduler of \<open>MediaPanelThumbnails\<close>
  (\<open>hydrus/client/gui/pages/ClientGUIResults.py\<close>).

  Python exceptions are values of \<open>py_error\<close>; a method that can raise returns
  \<open>py_error + 'a\<close>. Python's \<open>//\<close> and \<open>%\<close> on integers are \<open>div\<close> and \<open>mod\<close> on
  \<open>int\<close> (both round towards minus infinity), with the division by zero written out.
  Objects are modelled by their identity: a media object (a thumbnail) is a number, and so
  is a canvas page.
\<close>

datatype py_error = ZeroDivisionError | KeyError | IndexError | ValueError | DataMissing

type_synonym media = nat
type_synonym hash = string
type_synonym canvas_page = nat

text \<open>\<open>xs[i]\<close> on a Python list: a negative index counts from the end.\<close>

definition py_getitem :: "'a list \<Rightarrow> int \<Rightarrow> py_error + 'a" where
  "py_getitem xs i =
     (if 0 \<le> i \<and> i < int (length xs) then Inr (xs ! nat i)
      else if i < 0 \<and> - int (length xs) \<le> i then Inr (xs ! nat (int (length xs) + i))
      else Inl IndexError)"

text \<open>
  \<open>_sorted_media.index( m )\<close>: the position of \<open>m\<close>; the sorted list raises
  \<open>DataMissing\<close> when \<open>m\<close> is not in it.
\<close>

fun index_from :: "nat \<Rightarrow> 'a list \<Rightarrow> 'a \<Rightarrow> py_error + nat" where
  "index_from n [] m = Inl DataMissing"
| "index_from n (x # xs) m = (if x = m then Inr n else index_from (Suc n) xs m)"

definition index_of :: "'a list \<Rightarrow> 'a \<Rightarrow> py_error + nat" where
  "index_of xs m = index_from 0 xs m"

subsection \<open>Collaborators\<close>

text \<open>
  What the panel reads from outside itself, fixed during one call: the options store, the
  thumbnail cache, the file filter, the media objects' own data and the single step of the
  vertical scroll bar (\<open>self.verticalScrollBar().singleStep()\<close>).
\<close>

record env =
  focus_preview_on_ctrl_click :: bool
  focus_preview_on_ctrl_click_only_static :: bool
  focus_preview_on_shift_click :: bool
  focus_preview_on_shift_click_only_static :: bool
  fade_thumbnails :: bool
  thumbnail_margin :: int
  thumbnail_span_dimensions :: "int \<times> int"
  duration_ms :: "media \<Rightarrow> int option"
  display_hash :: "media \<Rightarrow> hash option"
  has_thumbnail_cached :: "media \<Rightarrow> bool"
  media_is_visible :: "media \<Rightarrow> bool"
  file_filter_none_media :: "media set"
  is_current_page :: bool
  scroll_single_step :: int

subsection \<open>Draw objects of the fade scheduler\<close>

text \<open>
  \<open>FRAME_DURATION_60FPS = 1.0 / 60\<close> is a binary64 float: the double nearest to one
  sixtieth, \<open>4803839602528529 / 2^58\<close>. Float floor division returns the floor of the
  exact quotient, and \<open>int\<close> truncates towards zero.
\<close>

definition FRAME_DURATION_60FPS :: rat where
  "FRAME_DURATION_60FPS = 4803839602528529 / 2 ^ 58"

definition FADE_DURATION_S :: rat where
  "FADE_DURATION_S = 1 / 2"

definition float_floordiv :: "rat \<Rightarrow> rat \<Rightarrow> py_error + rat" where
  "float_floordiv x y = (if y = 0 then Inl ZeroDivisionError else Inr (of_int \<lfloor>x / y\<rfloor>))"

definition py_int :: "rat \<Rightarrow> int" where
  "py_int v = (if 0 \<le> v then \<lfloor>v\<rfloor> else \<lceil>v\<rceil>)"

text \<open>
  An image is the thumbnail's own bitmap or a copy of it with its opacity scaled
  (\<open>QP.AdjustOpacity\<close>); a draw call is \<open>painter.drawImage( x, y, image )\<close> on the painter
  of one canvas page.
\<close>

datatype image = QtImage media | AdjustOpacity image rat

datatype draw_call = DrawImage canvas_page int int image

text \<open>
  The two classes \<open>ThumbnailWaitingToBeDrawn\<close> and \<open>ThumbnailWaitingToBeDrawnAnimated\<close>,
  the second with the fields its constructor adds.
\<close>

datatype draw_object =
    ThumbnailWaitingToBeDrawn
      (obj_hash: hash) (obj_thumbnail: media) (obj_thumbnail_index: int) (obj_bitmap: image)
      (draw_complete: bool)
  | ThumbnailWaitingToBeDrawnAnimated
      (obj_hash: hash) (obj_thumbnail: media) (obj_thumbnail_index: int) (obj_bitmap: image)
      (draw_complete: bool)
      (num_frames_drawn: int) (num_frames_to_draw: int) (alpha_bmp: image)
      (animation_started_precise: rat)

definition new_ThumbnailWaitingToBeDrawn ::
  "hash \<Rightarrow> media \<Rightarrow> int \<Rightarrow> image \<Rightarrow> draw_object" where
  "new_ThumbnailWaitingToBeDrawn h t i b = ThumbnailWaitingToBeDrawn h t i b False"

definition new_ThumbnailWaitingToBeDrawnAnimated ::
  "rat \<Rightarrow> hash \<Rightarrow> media \<Rightarrow> int \<Rightarrow> image \<Rightarrow> py_error + draw_object" where
  "new_ThumbnailWaitingToBeDrawnAnimated now_precise h t i b =
     (case float_floordiv FADE_DURATION_S FRAME_DURATION_60FPS of
        Inl e \<Rightarrow> Inl e
      | Inr q \<Rightarrow>
          let frames = max (py_int q) 1;
              opacity_factor = max (1 / 20) (1 / (of_int frames / 3))
          in Inr (ThumbnailWaitingToBeDrawnAnimated h t i b False 0 frames
                    (AdjustOpacity b opacity_factor) now_precise))"

text \<open>
  \<open>_GetNumFramesOutstanding\<close>: \<open>num_frames_to_now\<close> is the clock reading of the call,
  already turned into whole frames since the animation started (the clock is outside the
  model, so every reading is possible).
\<close>

definition GetNumFramesOutstanding :: "draw_object \<Rightarrow> int \<Rightarrow> int" where
  "GetNumFramesOutstanding obj num_frames_to_now =
     min num_frames_to_now (num_frames_to_draw obj - num_frames_drawn obj)"

fun DrawComplete :: "draw_object \<Rightarrow> bool" where
  "DrawComplete obj = draw_complete obj"

fun DrawDue :: "draw_object \<Rightarrow> int \<Rightarrow> bool" where
  "DrawDue (ThumbnailWaitingToBeDrawn h t i b c) num_frames_to_now = True"
| "DrawDue (ThumbnailWaitingToBeDrawnAnimated h t i b c d n a s) num_frames_to_now =
     (GetNumFramesOutstanding (ThumbnailWaitingToBeDrawnAnimated h t i b c d n a s)
        num_frames_to_now > 0)"

text \<open>\<open>DrawToPainter\<close> returns the images drawn at \<open>(x, y)\<close>, in order, and the object.\<close>

fun DrawToPainter :: "draw_object \<Rightarrow> int \<Rightarrow> image list \<times> draw_object" where
  "DrawToPainter (ThumbnailWaitingToBeDrawn h t i b c) num_frames_to_now =
     ([b], ThumbnailWaitingToBeDrawn h t i b True)"
| "DrawToPainter (ThumbnailWaitingToBeDrawnAnimated h t i b c d n a s) num_frames_to_now =
     (let frames =
            GetNumFramesOutstanding (ThumbnailWaitingToBeDrawnAnimated h t i b c d n a s)
              num_frames_to_now
      in if d + frames \<ge> n
         then ([b], ThumbnailWaitingToBeDrawnAnimated h t i b True n n a s)
         else (replicate (nat frames) a,
               ThumbnailWaitingToBeDrawnAnimated h t i b c (d + frames) n a s))"

subsection \<open>\<open>MediaPanel\<close>: selection and focus\<close>

text \<open>
  The fields of \<open>MediaPanel\<close> the selection state machine uses. \<open>selected_flag\<close> holds
  the \<open>_selected\<close> attribute of every media object (class \<open>Selectable\<close>: \<open>Select\<close> sets it,
  \<open>Deselect\<close> clears it, \<open>IsSelected\<close> reads it). The hooks \<open>_RedrawMedia\<close>,
  \<open>_PublishSelectionChange\<close> and \<open>_ScrollToMedia\<close> repaint, emit signals and scroll; they
  write none of these fields and are left out.
\<close>

record media_panel =
  sorted_media :: "media list"
  selected_media :: "media set"
  selected_flag :: "media \<Rightarrow> bool"
  focused_media :: "media option"
  last_hit_media :: "media option"
  next_best_media_if_focuses_removed :: "media option"
  shift_select_started_with_this_media :: "media option"
  media_added_in_current_shift_select :: "media set"

definition DeselectSelect ::
  "'a media_panel_scheme \<Rightarrow> media set \<Rightarrow> media set \<Rightarrow> 'a media_panel_scheme" where
  "DeselectSelect st media_to_deselect media_to_select =
     (let st1 =
            (if media_to_deselect \<noteq> {}
             then st\<lparr>selected_flag :=
                       (\<lambda>m. if m \<in> media_to_deselect then False else selected_flag st m),
                     selected_media := selected_media st - media_to_deselect\<rparr>
             else st)
      in if media_to_select \<noteq> {}
         then st1\<lparr>selected_flag :=
                    (\<lambda>m. if m \<in> media_to_select then True else selected_flag st1 m),
                  selected_media := selected_media st1 \<union> media_to_select\<rparr>
         else st1)"

definition EndShiftSelect :: "'a media_panel_scheme \<Rightarrow> 'a media_panel_scheme" where
  "EndShiftSelect st =
     st\<lparr>shift_select_started_with_this_media := None,
        media_added_in_current_shift_select := {}\<rparr>"

definition StartShiftSelect :: "'a media_panel_scheme \<Rightarrow> media \<Rightarrow> 'a media_panel_scheme" where
  "StartShiftSelect st media =
     st\<lparr>shift_select_started_with_this_media := Some media,
        media_added_in_current_shift_select := {}\<rparr>"

text \<open>
  The \<open>while\<close> loop of \<open>_SetFocusedMedia\<close>: \<open>next_best_media\<close> is the item at index \<open>i\<close>,
  and the loop steps back while it is in the selection.
\<close>

fun next_best_walk :: "media list \<Rightarrow> media set \<Rightarrow> media \<Rightarrow> nat \<Rightarrow> media option" where
  "next_best_walk medias selected next_best_media i =
     (if next_best_media \<in> selected
      then (if i = 0 then None
            else next_best_walk medias selected (medias ! (i - 1)) (i - 1))
      else Some next_best_media)"

definition SetFocusedMedia ::
  "'a media_panel_scheme \<Rightarrow> media option \<Rightarrow> py_error + 'a media_panel_scheme" where
  "SetFocusedMedia st media =
     (case (media, focused_media st) of
        (None, Some focused) \<Rightarrow>
          (case index_of (sorted_media st) focused of
             Inl e \<Rightarrow> Inl e
           | Inr i \<Rightarrow>
               Inr (st\<lparr>next_best_media_if_focuses_removed :=
                         next_best_walk (sorted_media st) (selected_media st) focused i,
                       focused_media := None,
                       last_hit_media := None\<rparr>))
      | _ \<Rightarrow>
          Inr (st\<lparr>next_best_media_if_focuses_removed := None,
                  focused_media := media,
                  last_hit_media := media\<rparr>))"

text \<open>\<open>xs[ a : b ]\<close> for indices that are not negative.\<close>

definition py_slice :: "'a list \<Rightarrow> nat \<Rightarrow> nat \<Rightarrow> 'a list" where
  "py_slice xs a b = drop a (take b xs)"

text \<open>The branch of \<open>_HitMedia\<close> for a media that is not \<open>None\<close>.\<close>

definition HitMedia_some ::
  "env \<Rightarrow> 'a media_panel_scheme \<Rightarrow> media \<Rightarrow> bool \<Rightarrow> bool \<Rightarrow>
   py_error + 'a media_panel_scheme" where
  "HitMedia_some E st media ctrl shift =
     (if ctrl \<and> \<not> shift
      then
        (if selected_flag st media
         then
           (let st1 = DeselectSelect st {media} {}
            in case (if focused_media st1 = Some media then SetFocusedMedia st1 None
                     else Inr st1) of
                 Inl e \<Rightarrow> Inl e
               | Inr st2 \<Rightarrow> Inr (EndShiftSelect st2))
         else
           (let st1 = DeselectSelect st {} {media};
                focus_it =
                  (if focus_preview_on_ctrl_click E
                   then (if focus_preview_on_ctrl_click_only_static E
                         then duration_ms E media = None
                         else True)
                   else False)
            in case (if focus_it then SetFocusedMedia st1 (Some media)
                     else Inr (st1\<lparr>last_hit_media := Some media\<rparr>)) of
                 Inl e \<Rightarrow> Inl e
               | Inr st2 \<Rightarrow> Inr (StartShiftSelect st2 media)))
      else if shift \<and> shift_select_started_with_this_media st \<noteq> None
      then
        (case index_of (sorted_media st) (the (shift_select_started_with_this_media st)) of
           Inl e \<Rightarrow> Inl e
         | Inr start_index \<Rightarrow>
             (case index_of (sorted_media st) media of
                Inl e \<Rightarrow> Inl e
              | Inr end_index \<Rightarrow>
                  (let media_from_start_of_shift_to_end =
                         (if start_index < end_index
                          then set (py_slice (sorted_media st) start_index (end_index + 1))
                          else set (py_slice (sorted_media st) end_index (start_index + 1)));
                       media_to_deselect =
                         {m \<in> media_added_in_current_shift_select st.
                            m \<notin> media_from_start_of_shift_to_end};
                       media_to_select =
                         {m \<in> media_from_start_of_shift_to_end. \<not> selected_flag st m};
                       st1 = st\<lparr>media_added_in_current_shift_select :=
                                  (media_added_in_current_shift_select st - media_to_deselect)
                                  \<union> media_to_select\<rparr>;
                       st2 = DeselectSelect st1 media_to_deselect media_to_select;
                       focus_it =
                         (if focus_preview_on_shift_click E
                          then (if focus_preview_on_shift_click_only_static E
                                then duration_ms E media = None
                                else True)
                          else False)
                   in if focus_it then SetFocusedMedia st2 (Some media)
                      else Inr (st2\<lparr>last_hit_media := Some media\<rparr>))))
      else
        (let st1 = (if \<not> selected_flag st media
                    then DeselectSelect st (selected_media st) {media}
                    else st)
         in case SetFocusedMedia st1 (Some media) of
              Inl e \<Rightarrow> Inl e
            | Inr st2 \<Rightarrow> Inr (StartShiftSelect st2 media)))"

text \<open>
  \<open>_Select\<close>: \<open>matching_media\<close> is what the file filter returned
  (\<open>file_filter.GetMediaListMedia( self )\<close>).
\<close>

definition Select ::
  "env \<Rightarrow> 'a media_panel_scheme \<Rightarrow> media set \<Rightarrow> py_error + 'a media_panel_scheme" where
  "Select E st matching_media =
     (let media_to_deselect = selected_media st - matching_media;
          media_to_select = matching_media - selected_media st;
          move_focus =
            (case focused_media st of None \<Rightarrow> True | Some f \<Rightarrow> f \<in> media_to_deselect);
          st1 =
            (if move_focus
                \<or> (case shift_select_started_with_this_media st of
                      None \<Rightarrow> False
                    | Some a \<Rightarrow> a \<in> media_to_deselect)
             then EndShiftSelect st else st);
          st2 = DeselectSelect st1 media_to_deselect media_to_select
      in if move_focus
         then
           (if selected_media st2 = {} then SetFocusedMedia st2 None
            else
              (let media_visible = (\<exists>m \<in> selected_media st2. media_is_visible E m)
               in if \<not> media_visible
                  then (case find (\<lambda>m. m \<in> selected_media st2) (sorted_media st2) of
                          None \<Rightarrow> Inr st2
                        | Some m \<Rightarrow> HitMedia_some E st2 m False False)
                  else Inr st2))
         else Inr st2)"

text \<open>
  \<open>_HitMedia\<close>. A click on empty space selects with the filter \<open>FILE_FILTER_NONE\<close>, whose
  result is \<open>file_filter_none_media\<close>.
\<close>

definition HitMedia ::
  "env \<Rightarrow> 'a media_panel_scheme \<Rightarrow> media option \<Rightarrow> bool \<Rightarrow> bool \<Rightarrow>
   py_error + 'a media_panel_scheme" where
  "HitMedia E st media ctrl shift =
     (case media of
        None \<Rightarrow>
          (if \<not> ctrl \<and> \<not> shift
           then (case Select E st (file_filter_none_media E) of
                   Inl e \<Rightarrow> Inl e
                 | Inr st1 \<Rightarrow>
                     (case SetFocusedMedia st1 None of
                        Inl e \<Rightarrow> Inl e
                      | Inr st2 \<Rightarrow> Inr (EndShiftSelect st2)))
           else Inr st)
      | Some m \<Rightarrow> HitMedia_some E st m ctrl shift)"

text \<open>
  Modelled from the spec: the removal of the base class
  (\<open>ClientMedia.MediaList._RemoveMediaDirectly\<close>, which \<open>MediaPanel\<close> inherits and which is
  not among the source files). The spec has removed items leave the ordered sequence, and
  the selection set stay a subset of the sequence.
\<close>

definition MediaList_RemoveMediaDirectly ::
  "'a media_panel_scheme \<Rightarrow> media set \<Rightarrow> media set \<Rightarrow> 'a media_panel_scheme" where
  "MediaList_RemoveMediaDirectly st singleton_media collected_media =
     st\<lparr>sorted_media :=
          filter (\<lambda>m. m \<notin> singleton_media \<union> collected_media) (sorted_media st),
        selected_media := selected_media st - (singleton_media \<union> collected_media)\<rparr>"

subsection \<open>\<open>MediaPanelThumbnails\<close>: canvas page cache\<close>

text \<open>
  \<open>_clean_canvas_pages\<close> is a dict from page index to canvas page, kept as an association
  list in insertion order; \<open>_dirty_canvas_pages\<close> is a list of canvas pages. A canvas page
  is a Qt image object; the model keeps its identity, a number handed out by the allocator
  \<open>next_canvas_page\<close> (the bitmap manager's \<open>GetQtImage\<close> returns a new image every time).
  \<open>_hashes_to_thumbnails_waiting_to_be_drawn\<close> is a dict as well. \<open>widget_size\<close> is the
  size of the scrolled widget (\<open>self.widget().size()\<close>), the virtual size of the grid.
\<close>

record media_panel_thumbnails = media_panel +
  clean_canvas_pages :: "(int \<times> canvas_page) list"
  dirty_canvas_pages :: "canvas_page list"
  num_rows_per_canvas_page :: int
  num_rows_per_actual_page :: int
  last_size :: "int \<times> int"
  num_columns :: int
  hashes_to_thumbnails_waiting_to_be_drawn :: "(hash \<times> draw_object) list"
  hashes_faded :: "hash set"
  last_device_pixel_ratio :: rat
  next_canvas_page :: canvas_page
  widget_size :: "int \<times> int"

definition GetPageIndexFromThumbnailIndex ::
  "media_panel_thumbnails \<Rightarrow> int \<Rightarrow> py_error + int" where
  "GetPageIndexFromThumbnailIndex st thumbnail_index =
     (let thumbnails_per_page = num_columns st * num_rows_per_canvas_page st
      in if thumbnails_per_page = 0 then Inl ZeroDivisionError
         else Inr (thumbnail_index div thumbnails_per_page))"

fun thumbnails_at :: "media list \<Rightarrow> int list \<Rightarrow> py_error + (int \<times> media) list" where
  "thumbnails_at medias [] = Inr []"
| "thumbnails_at medias (index # indices) =
     (case py_getitem medias index of
        Inl e \<Rightarrow> Inl e
      | Inr m \<Rightarrow>
          (case thumbnails_at medias indices of
             Inl e \<Rightarrow> Inl e
           | Inr rest \<Rightarrow> Inr ((index, m) # rest)))"

definition GetThumbnailsFromPageIndex ::
  "media_panel_thumbnails \<Rightarrow> int \<Rightarrow> py_error + (int \<times> media) list" where
  "GetThumbnailsFromPageIndex st page_index =
     (let num_thumbnails_per_page = num_columns st * num_rows_per_canvas_page st;
          start_index = num_thumbnails_per_page * page_index
      in if start_index \<le> int (length (sorted_media st))
         then
           (let end_index =
                  min (int (length (sorted_media st))) (start_index + num_thumbnails_per_page)
            in thumbnails_at (sorted_media st) [start_index .. end_index - 1])
         else Inr [])"

definition CreateNewDirtyPage :: "media_panel_thumbnails \<Rightarrow> media_panel_thumbnails" where
  "CreateNewDirtyPage st =
     (let canvas_page = next_canvas_page st
      in st\<lparr>dirty_canvas_pages := dirty_canvas_pages st @ [canvas_page],
            next_canvas_page := Suc canvas_page\<rparr>)"

definition DeleteAllDirtyPages :: "media_panel_thumbnails \<Rightarrow> media_panel_thumbnails" where
  "DeleteAllDirtyPages st = st\<lparr>dirty_canvas_pages := []\<rparr>"

text \<open>
  \<open>_DirtyPage\<close>: the page leaves the clean dict, the thumbnails it covers are listed (their
  waterfall is cancelled at the thumbnail cache), and the canvas page joins the dirty list.
\<close>

definition DirtyPage :: "media_panel_thumbnails \<Rightarrow> int \<Rightarrow> py_error + media_panel_thumbnails" where
  "DirtyPage st clean_index =
     (case map_of (clean_canvas_pages st) clean_index of
        None \<Rightarrow> Inl KeyError
      | Some canvas_page \<Rightarrow>
          (let st1 = st\<lparr>clean_canvas_pages := AList.delete clean_index (clean_canvas_pages st)\<rparr>
           in case GetThumbnailsFromPageIndex st1 clean_index of
                Inl e \<Rightarrow> Inl e
              | Inr thumbnails \<Rightarrow>
                  Inr (st1\<lparr>dirty_canvas_pages := dirty_canvas_pages st1 @ [canvas_page]\<rparr>)))"

fun DirtyPages :: "media_panel_thumbnails \<Rightarrow> int list \<Rightarrow> py_error + media_panel_thumbnails" where
  "DirtyPages st [] = Inr st"
| "DirtyPages st (clean_index # clean_indices) =
     (case DirtyPage st clean_index of
        Inl e \<Rightarrow> Inl e
      | Inr st' \<Rightarrow> DirtyPages st' clean_indices)"

definition DirtyAllPages :: "media_panel_thumbnails \<Rightarrow> py_error + media_panel_thumbnails" where
  "DirtyAllPages st = DirtyPages st (map fst (clean_canvas_pages st))"

definition StopFading :: "media_panel_thumbnails \<Rightarrow> hash \<Rightarrow> media_panel_thumbnails" where
  "StopFading st h =
     (if map_of (hashes_to_thumbnails_waiting_to_be_drawn st) h \<noteq> None
      then st\<lparr>hashes_to_thumbnails_waiting_to_be_drawn :=
                AList.delete h (hashes_to_thumbnails_waiting_to_be_drawn st)\<rparr>
      else st)"

subsection \<open>Geometry and hit testing\<close>

text \<open>
  \<open>_ReinitialisePageCacheIfNeeded\<close>: \<open>my_size\<close> is the size of the visible rectangle; the
  thumbnail span comes from the options (\<open>_GetThumbnailSpanDimensions\<close>).
\<close>

definition ReinitialisePageCacheIfNeeded ::
  "env \<Rightarrow> media_panel_thumbnails \<Rightarrow> int \<times> int \<Rightarrow> py_error + media_panel_thumbnails" where
  "ReinitialisePageCacheIfNeeded E st my_size =
     (let old_num_rows = num_rows_per_canvas_page st;
          old_num_columns = num_columns st;
          old_width = fst (last_size st);
          old_height = snd (last_size st);
          my_width = fst my_size;
          my_height = snd my_size;
          thumbnail_span_width = fst (thumbnail_span_dimensions E);
          thumbnail_span_height = snd (thumbnail_span_dimensions E)
      in if thumbnail_span_height = 0 then Inl ZeroDivisionError
         else
           let num_rows = my_height div thumbnail_span_height;
               st1 = st\<lparr>num_rows_per_actual_page := max 1 num_rows,
                        num_rows_per_canvas_page := max 1 (num_rows div 2)\<rparr>
           in if thumbnail_span_width = 0 then Inl ZeroDivisionError
              else
                let st2 = st1\<lparr>num_columns := max 1 (my_width div thumbnail_span_width)\<rparr>;
                    dimensions_changed = (old_width \<noteq> my_width \<or> old_height \<noteq> my_height);
                    thumb_layout_changed =
                      (old_num_columns \<noteq> num_columns st2
                       \<or> old_num_rows \<noteq> num_rows_per_canvas_page st2)
                in if dimensions_changed \<or> thumb_layout_changed
                   then
                     let width_got_bigger = old_width < my_width
                     in if thumb_layout_changed \<or> width_got_bigger
                        then (case DirtyAllPages st2 of
                                Inl e \<Rightarrow> Inl e
                              | Inr st3 \<Rightarrow> Inr (DeleteAllDirtyPages st3))
                        else Inr st2
                   else Inr st2)"

text \<open>
  \<open>_RecalculateVirtualSize\<close>: \<open>my_size\<close> is the size of the visible rectangle. The
  scrolled widget is resized to the virtual size when it differs from its size, so it has
  that size afterwards either way. Both divisions raise on a zero divisor. (The flag
  \<open>called_from_resize_event\<close> only decides whether the scroll area is told to update its
  scroll bars.)
\<close>

definition RecalculateVirtualSize ::
  "env \<Rightarrow> media_panel_thumbnails \<Rightarrow> int \<times> int \<Rightarrow> py_error + media_panel_thumbnails" where
  "RecalculateVirtualSize E st my_size =
     (let my_width = fst my_size;
          my_height = snd my_size
      in if my_width > 0 \<and> my_height > 0
         then
           let thumbnail_span_height = snd (thumbnail_span_dimensions E);
               num_media = int (length (sorted_media st))
           in if num_columns st = 0 then Inl ZeroDivisionError
              else
                let num_rows0 = max 1 (num_media div num_columns st);
                    num_rows = (if num_media mod num_columns st > 0
                                then num_rows0 + 1 else num_rows0);
                    virtual_width = my_width;
                    virtual_height0 = num_rows * thumbnail_span_height;
                    yUnit = scroll_single_step E
                in if yUnit = 0 then Inl ZeroDivisionError
                   else
                     let excess = virtual_height0 mod yUnit;
                         virtual_height1 = (if excess > 0
                                            then virtual_height0 + (yUnit - excess)
                                            else virtual_height0);
                         virtual_height = max virtual_height1 my_height
                     in Inr (st\<lparr>widget_size := (virtual_width, virtual_height)\<rparr>)
         else Inr st)"

text \<open>
  \<open>EventResize\<close>: the recomputation of the page cache, the recalculation of the virtual
  size, then the new size is remembered.
\<close>

definition EventResize ::
  "env \<Rightarrow> media_panel_thumbnails \<Rightarrow> int \<times> int \<Rightarrow> py_error + media_panel_thumbnails" where
  "EventResize E st my_size =
     (case ReinitialisePageCacheIfNeeded E st my_size of
        Inl e \<Rightarrow> Inl e
      | Inr st1 \<Rightarrow>
          (case RecalculateVirtualSize E st1 my_size of
             Inl e \<Rightarrow> Inl e
           | Inr st2 \<Rightarrow> Inr (st2\<lparr>last_size := my_size\<rparr>)))"

text \<open>\<open>_GetThumbnailUnderMouse\<close>, for the mouse position \<open>(x, y)\<close>.\<close>

definition GetThumbnailUnderMouse ::
  "env \<Rightarrow> media_panel_thumbnails \<Rightarrow> int \<times> int \<Rightarrow> py_error + media option" where
  "GetThumbnailUnderMouse E st pos =
     (let x = fst pos;
          y = snd pos;
          t_span_x = fst (thumbnail_span_dimensions E);
          t_span_y = snd (thumbnail_span_dimensions E)
      in if t_span_x = 0 \<or> t_span_y = 0 then Inl ZeroDivisionError
         else
           let x_mod = x mod t_span_x;
               y_mod = y mod t_span_y
           in if x_mod \<le> thumbnail_margin E \<or> y_mod \<le> thumbnail_margin E
                 \<or> x_mod > t_span_x - thumbnail_margin E
                 \<or> y_mod > t_span_y - thumbnail_margin E
              then Inr None
              else
                let column_index = x div t_span_x;
                    row_index = y div t_span_y
                in if column_index \<ge> num_columns st then Inr None
                   else
                     let thumbnail_index = num_columns st * row_index + column_index
                     in if thumbnail_index < 0 then Inr None
                        else if thumbnail_index \<ge> int (length (sorted_media st)) then Inr None
                        else (case py_getitem (sorted_media st) thumbnail_index of
                                Inl e \<Rightarrow> Inl e
                              | Inr m \<Rightarrow> Inr (Some m)))"

subsection \<open>Fade scheduler\<close>

text \<open>\<open>_FadeThumbnails\<close>; \<open>now_precise\<close> is the clock reading the new draw objects store.\<close>

fun fade_loop ::
  "env \<Rightarrow> rat \<Rightarrow> media_panel_thumbnails \<Rightarrow> media list \<Rightarrow>
   py_error + media_panel_thumbnails" where
  "fade_loop E now_precise st [] = Inr st"
| "fade_loop E now_precise st (t # thumbnails) =
     (case display_hash E t of
        None \<Rightarrow> fade_loop E now_precise st thumbnails
      | Some h \<Rightarrow>
          (case index_of (sorted_media st) t of
             Inl e \<Rightarrow> fade_loop E now_precise st thumbnails
           | Inr i \<Rightarrow>
               (case GetPageIndexFromThumbnailIndex st (int i) of
                  Inl e \<Rightarrow> Inl e
                | Inr page_index \<Rightarrow>
                    if map_of (clean_canvas_pages st) page_index = None
                    then fade_loop E now_precise st thumbnails
                    else
                      (let st1 = StopFading (st\<lparr>hashes_faded := insert h (hashes_faded st)\<rparr>) h
                       in case (if fade_thumbnails E
                                then new_ThumbnailWaitingToBeDrawnAnimated now_precise h t
                                       (int i) (QtImage t)
                                else Inr (new_ThumbnailWaitingToBeDrawn h t (int i) (QtImage t))) of
                            Inl e \<Rightarrow> Inl e
                          | Inr thumbnail_draw_object \<Rightarrow>
                              fade_loop E now_precise
                                (st1\<lparr>hashes_to_thumbnails_waiting_to_be_drawn :=
                                       AList.update h thumbnail_draw_object
                                         (hashes_to_thumbnails_waiting_to_be_drawn st1)\<rparr>)
                                thumbnails))))"

definition FadeThumbnails ::
  "env \<Rightarrow> rat \<Rightarrow> media_panel_thumbnails \<Rightarrow> media list \<Rightarrow>
   py_error + media_panel_thumbnails" where
  "FadeThumbnails E now_precise st thumbnails =
     (if thumbnails = [] then Inr st
      else if \<not> is_current_page E then DirtyAllPages st
      else fade_loop E now_precise st thumbnails)"

text \<open>
  One pass of the loop body of \<open>TIMERAnimationUpdate\<close> up to the deletion test: whether
  the entry is to be deleted, the draw object afterwards and the draw calls made.
  \<open>frames_due\<close> and \<open>frames_draw\<close> are the clock readings of \<open>DrawDue\<close> and of
  \<open>DrawToPainter\<close>.
\<close>

definition animation_step ::
  "env \<Rightarrow> media_panel_thumbnails \<Rightarrow> draw_object \<Rightarrow> int \<Rightarrow> int \<Rightarrow>
   py_error + (bool \<times> draw_object \<times> draw_call list)" where
  "animation_step E st thumbnail_draw_object frames_due frames_draw =
     (if DrawDue thumbnail_draw_object frames_due
      then
        (let index = obj_thumbnail_index thumbnail_draw_object;
             expected_thumbnail =
               (case py_getitem (sorted_media st) index of
                  Inl e \<Rightarrow> None
                | Inr m \<Rightarrow> Some m)
         in case GetPageIndexFromThumbnailIndex st index of
              Inl e \<Rightarrow> Inl e
            | Inr page_index \<Rightarrow>
                if expected_thumbnail \<noteq> Some (obj_thumbnail thumbnail_draw_object)
                then Inr (True, thumbnail_draw_object, [])
                else
                  (case map_of (clean_canvas_pages st) page_index of
                     None \<Rightarrow> Inr (True, thumbnail_draw_object, [])
                   | Some canvas_page \<Rightarrow>
                       (let thumbnail_col = index mod num_columns st;
                            thumbnail_row = index div num_columns st;
                            x = thumbnail_col * fst (thumbnail_span_dimensions E)
                                + thumbnail_margin E;
                            y = (thumbnail_row - page_index * num_rows_per_canvas_page st)
                                  * snd (thumbnail_span_dimensions E)
                                + thumbnail_margin E;
                            drawn = DrawToPainter thumbnail_draw_object frames_draw
                        in Inr (False, snd drawn, map (DrawImage canvas_page x y) (fst drawn)))))
      else Inr (False, thumbnail_draw_object, []))"

text \<open>
  \<open>TIMERAnimationUpdate\<close>. \<open>hashes\<close> is the order in which
  \<open>HydrusData.IterateListRandomlyAndFast\<close> yields the keys of the pending dict, and
  \<open>out_of_time h\<close> says whether the deadline has passed when the entry of \<open>h\<close> is done.
  The result is the panel and the draw calls made, in order.
\<close>

fun animation_loop ::
  "env \<Rightarrow> (hash \<Rightarrow> int) \<Rightarrow> (hash \<Rightarrow> int) \<Rightarrow> (hash \<Rightarrow> bool) \<Rightarrow>
   media_panel_thumbnails \<Rightarrow> hash list \<Rightarrow>
   py_error + (media_panel_thumbnails \<times> (hash \<times> draw_call) list)" where
  "animation_loop E frames_due frames_draw out_of_time st [] = Inr (st, [])"
| "animation_loop E frames_due frames_draw out_of_time st (h # hashes) =
     (case map_of (hashes_to_thumbnails_waiting_to_be_drawn st) h of
        None \<Rightarrow> Inl KeyError
      | Some thumbnail_draw_object \<Rightarrow>
          (case animation_step E st thumbnail_draw_object (frames_due h) (frames_draw h) of
             Inl e \<Rightarrow> Inl e
           | Inr (delete_entry, obj, draws) \<Rightarrow>
               (let st1 =
                      (if DrawComplete obj \<or> delete_entry
                       then st\<lparr>hashes_to_thumbnails_waiting_to_be_drawn :=
                                 AList.delete h (hashes_to_thumbnails_waiting_to_be_drawn st)\<rparr>
                       else st\<lparr>hashes_to_thumbnails_waiting_to_be_drawn :=
                                 AList.update h obj
                                   (hashes_to_thumbnails_waiting_to_be_drawn st)\<rparr>)
                in if out_of_time h then Inr (st1, map (Pair h) draws)
                   else (case animation_loop E frames_due frames_draw out_of_time st1 hashes of
                           Inl e \<Rightarrow> Inl e
                         | Inr (st2, later) \<Rightarrow> Inr (st2, map (Pair h) draws @ later)))))"

definition TIMERAnimationUpdate ::
  "env \<Rightarrow> (hash \<Rightarrow> int) \<Rightarrow> (hash \<Rightarrow> int) \<Rightarrow> (hash \<Rightarrow> bool) \<Rightarrow>
   media_panel_thumbnails \<Rightarrow> hash list \<Rightarrow>
   py_error + (media_panel_thumbnails \<times> (hash \<times> draw_call) list)" where
  "TIMERAnimationUpdate E frames_due frames_draw out_of_time st hashes =
     animation_loop E frames_due frames_draw out_of_time st hashes"

subsection \<open>Paint pass\<close>

text \<open>
  \<open>_DrawCanvasPage\<close> paints the cached thumbnails of the page into the canvas page and
  asks the thumbnail cache for the others; of the panel it changes the pending dict only
  (\<open>_StopFading\<close>).
\<close>

fun draw_canvas_loop ::
  "env \<Rightarrow> media_panel_thumbnails \<Rightarrow> (int \<times> media) list \<Rightarrow> media_panel_thumbnails" where
  "draw_canvas_loop E st [] = st"
| "draw_canvas_loop E st ((index, t) # page_thumbnails) =
     (case display_hash E t of
        None \<Rightarrow> draw_canvas_loop E st page_thumbnails
      | Some h \<Rightarrow>
          if h \<in> hashes_faded st \<and> has_thumbnail_cached E t
          then draw_canvas_loop E (StopFading st h) page_thumbnails
          else draw_canvas_loop E st page_thumbnails)"

definition DrawCanvasPage ::
  "env \<Rightarrow> media_panel_thumbnails \<Rightarrow> int \<Rightarrow> canvas_page \<Rightarrow>
   py_error + media_panel_thumbnails" where
  "DrawCanvasPage E st page_index canvas_page =
     (case GetThumbnailsFromPageIndex st page_index of
        Inl e \<Rightarrow> Inl e
      | Inr page_thumbnails \<Rightarrow> Inr (draw_canvas_loop E st page_thumbnails))"

text \<open>
  \<open>_CalculateVisiblePageIndices\<close>: \<open>y_start\<close> is \<open>_GetYStart()\<close> and \<open>visible_height\<close> the
  height of the visible rectangle.
\<close>

definition CalculateVisiblePageIndices ::
  "env \<Rightarrow> media_panel_thumbnails \<Rightarrow> int \<Rightarrow> int \<Rightarrow> py_error + int list" where
  "CalculateVisiblePageIndices E st y_start visible_height =
     (let earliest_y = y_start;
          last_y = earliest_y + visible_height;
          page_height = num_rows_per_canvas_page st * snd (thumbnail_span_dimensions E)
      in if page_height = 0 then Inl ZeroDivisionError
         else Inr [earliest_y div page_height .. last_y div page_height])"

text \<open>
  The loop of \<open>paintEvent\<close> over \<open>page_indices_to_draw\<close>; \<open>potential\<close> is
  \<open>potential_clean_indices_to_steal\<close>. The last step of the body, which copies a displayed
  clean page to the screen, changes nothing of the panel.
\<close>

fun paint_loop ::
  "env \<Rightarrow> media_panel_thumbnails \<Rightarrow> int list \<Rightarrow> int list \<Rightarrow>
   py_error + media_panel_thumbnails" where
  "paint_loop E st potential [] = Inr st"
| "paint_loop E st potential (page_index # page_indices) =
     (if map_of (clean_canvas_pages st) page_index = None
      then
        (case (if dirty_canvas_pages st = []
               then (if potential \<noteq> []
                     then (case DirtyPage st (last potential) of
                             Inl e \<Rightarrow> Inl e
                           | Inr s \<Rightarrow> Inr (s, butlast potential))
                     else Inr (CreateNewDirtyPage st, potential))
               else Inr (st, potential)) of
           Inl e \<Rightarrow> Inl e
         | Inr (st1, potential1) \<Rightarrow>
             if dirty_canvas_pages st1 = [] then Inl IndexError
             else
               (let canvas_page = last (dirty_canvas_pages st1);
                    st2 = st1\<lparr>dirty_canvas_pages := butlast (dirty_canvas_pages st1)\<rparr>
                in case DrawCanvasPage E st2 page_index canvas_page of
                     Inl e \<Rightarrow> Inl e
                   | Inr st3 \<Rightarrow>
                       paint_loop E
                         (st3\<lparr>clean_canvas_pages :=
                                AList.update page_index canvas_page (clean_canvas_pages st3)\<rparr>)
                         potential1 page_indices))
      else paint_loop E st potential page_indices)"

definition page_indices_to_draw :: "int list \<Rightarrow> int list" where
  "page_indices_to_draw page_indices_to_display =
     (let earliest_page_index_to_display = Min (set page_indices_to_display);
          last_page_index_to_display = Max (set page_indices_to_display)
      in sort (page_indices_to_display
               @ (if earliest_page_index_to_display > 0
                  then [earliest_page_index_to_display - 1] else [])
               @ [last_page_index_to_display + 1]))"

text \<open>
  \<open>paintEvent\<close> of the inner widget. \<open>dpr\<close> is the device pixel ratio now and \<open>shuffle\<close>
  what \<open>random.shuffle\<close> does to the list of indices that may be stolen.
\<close>

definition paintEvent ::
  "env \<Rightarrow> media_panel_thumbnails \<Rightarrow> rat \<Rightarrow> int \<Rightarrow> int \<Rightarrow> (int list \<Rightarrow> int list) \<Rightarrow>
   py_error + media_panel_thumbnails" where
  "paintEvent E st dpr y_start visible_height shuffle =
     (case (if dpr \<noteq> last_device_pixel_ratio st
            then (case DirtyAllPages (st\<lparr>last_device_pixel_ratio := dpr\<rparr>) of
                    Inl e \<Rightarrow> Inl e
                  | Inr s \<Rightarrow> Inr (DeleteAllDirtyPages s))
            else Inr st) of
        Inl e \<Rightarrow> Inl e
      | Inr st1 \<Rightarrow>
          (case CalculateVisiblePageIndices E st1 y_start visible_height of
             Inl e \<Rightarrow> Inl e
           | Inr page_indices_to_display \<Rightarrow>
               if page_indices_to_display = [] then Inl ValueError
               else
                 (let to_draw = page_indices_to_draw page_indices_to_display;
                      potential_clean_indices_to_steal =
                        shuffle (filter (\<lambda>page_index. page_index \<notin> set to_draw)
                                   (map fst (clean_canvas_pages st1)))
                  in paint_loop E st1 potential_clean_indices_to_steal to_draw)))"

subsection \<open>Removal\<close>

text \<open>
  \<open>MediaPanelThumbnails._RemoveMediaDirectly\<close>: the focus is cleared when the focused
  media is among the removed, the base class removes, the shift gesture ends, the virtual
  size is recalculated (\<open>my_size\<close> is the size of the visible rectangle) and every page is
  dirtied.
\<close>

definition RemoveMediaDirectly ::
  "env \<Rightarrow> media_panel_thumbnails \<Rightarrow> int \<times> int \<Rightarrow> media set \<Rightarrow> media set \<Rightarrow>
   py_error + media_panel_thumbnails" where
  "RemoveMediaDirectly E st my_size singleton_media collected_media =
     (case (case focused_media st of
              None \<Rightarrow> Inr st
            | Some f \<Rightarrow>
                if f \<in> singleton_media \<or> f \<in> collected_media
                then SetFocusedMedia st None
                else Inr st) of
        Inl e \<Rightarrow> Inl e
      | Inr st1 \<Rightarrow>
          (case RecalculateVirtualSize E
                  (EndShiftSelect
                     (MediaList_RemoveMediaDirectly st1 singleton_media collected_media))
                  my_size of
             Inl e \<Rightarrow> Inl e
           | Inr st2 \<Rightarrow> DirtyAllPages st2))"

subsection \<open>Well-formed states and examples\<close>

text \<open>
  What the constructor establishes and every operation keeps: the clean dict has one entry
  per key, no canvas page is held twice (in the clean dict, in the dirty list, or in
  both), every canvas page was handed out by the allocator, page indices are not
  negative, and there is at least one column and one row per canvas page.
\<close>

definition cache_ok :: "media_panel_thumbnails \<Rightarrow> bool" where
  "cache_ok st \<longleftrightarrow>
     distinct (map fst (clean_canvas_pages st))
     \<and> distinct (map snd (clean_canvas_pages st) @ dirty_canvas_pages st)
     \<and> list_all (\<lambda>c. c < next_canvas_page st)
          (map snd (clean_canvas_pages st) @ dirty_canvas_pages st)
     \<and> list_all (\<lambda>k. 0 \<le> k) (map fst (clean_canvas_pages st))
     \<and> 1 \<le> num_columns st \<and> 1 \<le> num_rows_per_canvas_page st"

text \<open>
  A panel of seven thumbnails, three to a row, after a first paint of a 500 x 400
  viewport: pages 0 and 1 are clean, one buffer is dirty.
\<close>

definition example_env :: env where
  "example_env =
     \<lparr>focus_preview_on_ctrl_click = False,
      focus_preview_on_ctrl_click_only_static = False,
      focus_preview_on_shift_click = False,
      focus_preview_on_shift_click_only_static = False,
      fade_thumbnails = True,
      thumbnail_margin = 2,
      thumbnail_span_dimensions = (158, 133),
      duration_ms = (\<lambda>m. None),
      display_hash =
        map_of [(10, ''h10''), (11, ''h11''), (12, ''h12''), (13, ''h13''), (14, ''h14''),
                (15, ''h15''), (16, ''h16'')],
      has_thumbnail_cached = (\<lambda>m. True),
      media_is_visible = (\<lambda>m. True),
      file_filter_none_media = {},
      is_current_page = True,
      scroll_single_step = 50\<rparr>"

definition example_panel :: media_panel_thumbnails where
  "example_panel =
     \<lparr>sorted_media = [10, 11, 12, 13, 14, 15, 16],
      selected_media = {},
      selected_flag = (\<lambda>m. False),
      focused_media = None,
      last_hit_media = None,
      next_best_media_if_focuses_removed = None,
      shift_select_started_with_this_media = None,
      media_added_in_current_shift_select = {},
      clean_canvas_pages = [(0, 0), (1, 1)],
      dirty_canvas_pages = [2],
      num_rows_per_canvas_page = 1,
      num_rows_per_actual_page = 3,
      last_size = (500, 400),
      num_columns = 3,
      hashes_to_thumbnails_waiting_to_be_drawn = [],
      hashes_faded = {},
      last_device_pixel_ratio = 1,
      next_canvas_page = 3,
      widget_size = (500, 400)\<rparr>"

text \<open>
  An entry is stale when the item at its remembered index is no longer its thumbnail, or
  when the page that covers the index is not in the clean dict.
\<close>

definition entry_is_stale :: "media_panel_thumbnails \<Rightarrow> draw_object \<Rightarrow> bool" where
  "entry_is_stale st obj \<longleftrightarrow>
     (case py_getitem (sorted_media st) (obj_thumbnail_index obj) of
        Inl e \<Rightarrow> True
      | Inr m \<Rightarrow> m \<noteq> obj_thumbnail obj)
     \<or> (case GetPageIndexFromThumbnailIndex st (obj_thumbnail_index obj) of
          Inl e \<Rightarrow> False
        | Inr page_index \<Rightarrow> map_of (clean_canvas_pages st) page_index = None)"

text \<open>The hashes a tick gets to before its deadline stops the loop.\<close>

fun reached :: "(hash \<Rightarrow> bool) \<Rightarrow> hash list \<Rightarrow> hash list" where
  "reached out_of_time [] = []"
| "reached out_of_time (h # hashes) =
     h # (if out_of_time h then [] else reached out_of_time hashes)"

text \<open>
  The example panel after item 14 was removed from the sequence while its fade, begun at
  index 4, was pending.
\<close>

definition stale_panel :: media_panel_thumbnails where
  "stale_panel =
     example_panel\<lparr>sorted_media := [10, 11, 12, 13, 15, 16],
       hashes_to_thumbnails_waiting_to_be_drawn :=
         [(''h14'', ThumbnailWaitingToBeDrawnAnimated ''h14'' 14 4 (QtImage 14) False 0 30
                      (AdjustOpacity (QtImage 14) (1 / 10)) 0)]\<rparr>"

text \<open>
  The same panel with a second pending fade, of item 16 at index 6, which the shortened
  sequence no longer has.
\<close>

definition stale_pair_panel :: media_panel_thumbnails where
  "stale_pair_panel =
     example_panel\<lparr>sorted_media := [10, 11, 12, 13, 15, 16],
       hashes_to_thumbnails_waiting_to_be_drawn :=
         [(''h14'', ThumbnailWaitingToBeDrawnAnimated ''h14'' 14 4 (QtImage 14) False 0 30
                      (AdjustOpacity (QtImage 14) (1 / 10)) 0),
          (''h16'', ThumbnailWaitingToBeDrawnAnimated ''h16'' 16 6 (QtImage 16) False 0 30
                      (AdjustOpacity (QtImage 16) (1 / 10)) 0)]\<rparr>"

text \<open>
  The selection invariant: the selection set is the set of the items of the sorted
  sequence whose flag is set. A panel is well-formed when, further, the focused media and
  the shift anchor (if any) are in the sequence.
\<close>

definition selection_ok :: "'a media_panel_scheme \<Rightarrow> bool" where
  "selection_ok st \<longleftrightarrow>
     selected_media st = {m \<in> set (sorted_media st). selected_flag st m}"

definition panel_ok :: "'a media_panel_scheme \<Rightarrow> bool" where
  "panel_ok st \<longleftrightarrow>
     selection_ok st
     \<and> (case focused_media st of None \<Rightarrow> True | Some f \<Rightarrow> f \<in> set (sorted_media st))
     \<and> (case shift_select_started_with_this_media st of
          None \<Rightarrow> True
        | Some a \<Rightarrow> a \<in> set (sorted_media st))"

text \<open>
  The example panel with items 10 and 11 selected and 11 focused, and in the middle of a
  shift gesture that began at 12 and has added 13 and 14, with 10 selected before it.
\<close>

definition selected_panel :: media_panel_thumbnails where
  "selected_panel =
     example_panel\<lparr>selected_media := {10, 11},
       selected_flag := (\<lambda>m. m = 10 \<or> m = 11),
       focused_media := Some 11,
       last_hit_media := Some 11\<rparr>"

definition shift_panel :: media_panel_thumbnails where
  "shift_panel =
     example_panel\<lparr>selected_media := {10, 12, 13, 14},
       selected_flag := (\<lambda>m. m = 10 \<or> m = 12 \<or> m = 13 \<or> m = 14),
       focused_media := Some 12,
       last_hit_media := Some 14,
       shift_select_started_with_this_media := Some 12,
       media_added_in_current_shift_select := {13, 14}\<rparr>"

section \<open>Properties\<close>

subsection \<open>Page cache helpers\<close>

lemma thumbnails_at_ok:
  "\<forall>i \<in> set indices. 0 \<le> i \<and> i < int (length medias) \<Longrightarrow>
   \<exists>r. thumbnails_at medias indices = Inr r"
  by (induction indices) (auto simp: py_getitem_def)

lemma GetThumbnailsFromPageIndex_ok:
  assumes "0 \<le> num_columns st * num_rows_per_canvas_page st * page_index"
  shows "\<exists>r. GetThumbnailsFromPageIndex st page_index = Inr r"
  using assms
  by (auto simp: GetThumbnailsFromPageIndex_def Let_def intro!: thumbnails_at_ok)

lemma DirtyPage_ok:
  assumes "map_of (clean_canvas_pages st) k = Some c"
    and "0 \<le> num_columns st * num_rows_per_canvas_page st * k"
  shows "DirtyPage st k =
     Inr (st\<lparr>clean_canvas_pages := AList.delete k (clean_canvas_pages st),
             dirty_canvas_pages := dirty_canvas_pages st @ [c]\<rparr>)"
proof -
  let ?st1 = "st\<lparr>clean_canvas_pages := AList.delete k (clean_canvas_pages st)\<rparr>"
  have "0 \<le> num_columns ?st1 * num_rows_per_canvas_page ?st1 * k" using assms(2) by simp
  from GetThumbnailsFromPageIndex_ok[OF this]
  obtain r where "GetThumbnailsFromPageIndex ?st1 k = Inr r" by blast
  then show ?thesis using assms(1) by (simp add: DirtyPage_def)
qed

lemma DirtyPages_keys:
  "distinct ks \<Longrightarrow> set ks \<subseteq> fst ` set (clean_canvas_pages st) \<Longrightarrow>
   \<forall>k \<in> set ks. 0 \<le> num_columns st * num_rows_per_canvas_page st * k \<Longrightarrow>
   DirtyPages st ks =
     Inr (st\<lparr>clean_canvas_pages := filter (\<lambda>p. fst p \<notin> set ks) (clean_canvas_pages st),
             dirty_canvas_pages :=
               dirty_canvas_pages st @ map (\<lambda>k. the (map_of (clean_canvas_pages st) k)) ks\<rparr>)"
proof (induction ks arbitrary: st)
  case Nil
  then show ?case by simp
next
  case (Cons k ks)
  have "map_of (clean_canvas_pages st) k \<noteq> None"
    using Cons.prems by (simp add: map_of_eq_None_iff)
  then obtain c where c: "map_of (clean_canvas_pages st) k = Some c" by blast
  define st1 where "st1 = st\<lparr>clean_canvas_pages := AList.delete k (clean_canvas_pages st),
                  dirty_canvas_pages := dirty_canvas_pages st @ [c]\<rparr>"
  have dp: "DirtyPage st k = Inr st1"
    using DirtyPage_ok[OF c] Cons.prems(3) by (simp add: st1_def)
  have sub: "set ks \<subseteq> fst ` set (clean_canvas_pages st1)"
  proof
    fix x assume x: "x \<in> set ks"
    then have "x \<noteq> k" using Cons.prems by auto
    moreover from x Cons.prems obtain b where "(x, b) \<in> set (clean_canvas_pages st)" by force
    ultimately have "(x, b) \<in> set (clean_canvas_pages st1)"
      by (simp add: st1_def AList.delete_eq)
    then show "x \<in> fst ` set (clean_canvas_pages st1)" by force
  qed
  have d: "distinct ks" using Cons.prems by simp
  have nn: "\<forall>k \<in> set ks. 0 \<le> num_columns st1 * num_rows_per_canvas_page st1 * k"
    using Cons.prems(3) by (simp add: st1_def)
  have mo: "\<And>k'. k' \<in> set ks \<Longrightarrow>
      map_of (clean_canvas_pages st1) k' = map_of (clean_canvas_pages st) k'"
    using Cons.prems by (auto simp: st1_def AList.delete_conv')
  have m: "map (\<lambda>k. the (map_of (clean_canvas_pages st1) k)) ks =
           map (\<lambda>k. the (map_of (clean_canvas_pages st) k)) ks"
    using mo by simp
  have f: "filter (\<lambda>p. fst p \<notin> set ks) (clean_canvas_pages st1) =
           filter (\<lambda>p. fst p \<notin> set (k # ks)) (clean_canvas_pages st)"
    by (auto simp: st1_def AList.delete_eq intro: filter_cong)
  show ?case using Cons.IH[OF d sub nn] dp
    by (simp add: m f c) (simp add: st1_def)
qed

lemma map_the_map_of:
  "distinct (map fst xs) \<Longrightarrow> map (\<lambda>k. the (map_of xs k)) (map fst xs) = map snd xs"
  by (induction xs) (auto simp: image_iff)

lemma DirtyAllPages_ok:
  assumes "distinct (map fst (clean_canvas_pages st))"
    and "list_all (\<lambda>k. 0 \<le> k) (map fst (clean_canvas_pages st))"
    and "0 \<le> num_columns st" and "0 \<le> num_rows_per_canvas_page st"
  shows "DirtyAllPages st =
     Inr (st\<lparr>clean_canvas_pages := [],
             dirty_canvas_pages := dirty_canvas_pages st @ map snd (clean_canvas_pages st)\<rparr>)"
proof -
  have nn: "\<forall>k \<in> set (map fst (clean_canvas_pages st)).
      0 \<le> num_columns st * num_rows_per_canvas_page st * k"
    using assms(2,3,4) by (auto simp: list_all_iff)
  show ?thesis
    unfolding DirtyAllPages_def
    using map_the_map_of[OF assms(1)] DirtyPages_keys[OF assms(1) _ nn]
    by (simp add: comp_def)
qed

subsection \<open>Geometry\<close>

text \<open>
  C6. For every viewport size and every thumbnail span (both components non-zero, as a
  thumbnail size plus padding is), the recomputation returns and sets
  \<open>columns = max(1, floor(viewport_width / span_width))\<close>,
  \<open>rows_per_canvas_page = max(1, floor(floor(viewport_height / span_height) / 2))\<close> and
  \<open>rows_per_actual_page = max(1, floor(viewport_height / span_height))\<close>, the quotients
  being the exact ones.
\<close>

theorem geometry_recomputation:
  assumes "thumbnail_span_dimensions E = (span_width, span_height)"
    and "span_width \<noteq> 0" and "span_height \<noteq> 0"
    and "cache_ok st"
  shows "\<exists>st'. ReinitialisePageCacheIfNeeded E st (my_width, my_height) = Inr st'
     \<and> num_columns st' = max 1 \<lfloor>real_of_int my_width / real_of_int span_width\<rfloor>
     \<and> num_rows_per_canvas_page st' =
         max 1 \<lfloor>real_of_int \<lfloor>real_of_int my_height / real_of_int span_height\<rfloor> / 2\<rfloor>
     \<and> num_rows_per_actual_page st' =
         max 1 \<lfloor>real_of_int my_height / real_of_int span_height\<rfloor>"
proof -
  have h2: "\<lfloor>real_of_int (my_height div span_height) / 2\<rfloor> = my_height div span_height div 2"
    using floor_divide_of_int_eq[of "my_height div span_height" 2, where ?'a = real] by simp
  show ?thesis
    using assms
    by (simp add: ReinitialisePageCacheIfNeeded_def Let_def DirtyAllPages_ok cache_ok_def
        DeleteAllDirtyPages_def floor_divide_of_int_eq h2)
qed

theorem geometry_recomputation_witness:
  "\<exists>st'. ReinitialisePageCacheIfNeeded example_env example_panel (800, 700) = Inr st'
     \<and> num_columns st' = 5 \<and> num_rows_per_canvas_page st' = 2
     \<and> num_rows_per_actual_page st' = 5"
proof -
  have "cache_ok example_panel" by (simp add: cache_ok_def example_panel_def)
  then show ?thesis
    using geometry_recomputation[of example_env 158 133 example_panel 800 700]
    by (simp add: example_env_def)
qed

subsection \<open>Resizing\<close>

lemma RecalculateVirtualSize_returns:
  assumes "scroll_single_step E \<noteq> 0" and "num_columns st \<noteq> 0"
  shows "\<exists>v. RecalculateVirtualSize E st my_size = Inr (st\<lparr>widget_size := v\<rparr>)"
proof (cases "fst my_size > 0 \<and> snd my_size > 0")
  case True
  then show ?thesis using assms
    by (auto simp add: RecalculateVirtualSize_def Let_def simp del: split_paired_Ex)
next
  case False
  have "RecalculateVirtualSize E st my_size = Inr st"
    unfolding RecalculateVirtualSize_def Let_def if_not_P[OF False] ..
  then have "RecalculateVirtualSize E st my_size = Inr (st\<lparr>widget_size := widget_size st\<rparr>)"
    by simp
  then show ?thesis by (rule exI)
qed

lemma RecalculateVirtualSize_raises:
  assumes "scroll_single_step E = 0" and "num_columns st \<noteq> 0"
    and "fst my_size > 0" and "snd my_size > 0"
  shows "RecalculateVirtualSize E st my_size = Inl ZeroDivisionError"
  using assms by (simp add: RecalculateVirtualSize_def Let_def)

lemma EventResize_pools:
  assumes "ReinitialisePageCacheIfNeeded E st my_size = Inr st'"
    and "scroll_single_step E \<noteq> 0" and "num_columns st' \<noteq> 0"
  shows "\<exists>st''. EventResize E st my_size = Inr st''
     \<and> clean_canvas_pages st'' = clean_canvas_pages st'
     \<and> dirty_canvas_pages st'' = dirty_canvas_pages st'
     \<and> last_size st'' = my_size"
proof -
  from RecalculateVirtualSize_returns[OF assms(2,3), of my_size]
  obtain v where v: "RecalculateVirtualSize E st' my_size = Inr (st'\<lparr>widget_size := v\<rparr>)"
    by blast
  show ?thesis by (simp add: EventResize_def assms(1) v)
qed

text \<open>
  C7. On every resize, with non-zero spans and a well-formed cache, the recomputation
  returns, and: if the recomputed column count or the recomputed rows per canvas page
  differs from the old one, or the viewport grew in width, every clean canvas page has
  left the clean pool and the dirty buffers are discarded, so both pools are empty
  afterwards; if the column count and the rows per canvas page are unchanged and the
  viewport did not grow in width (in particular when it only shrank in height), the clean
  pages and the dirty buffers are left untouched; in particular, on a change of the column
  count or of the rows per canvas page with a viewport that grew, the pending dirty
  buffers are discarded. With a scroll bar whose single step is not zero the whole resize
  event returns, with the pools the recomputation left and the new size remembered.
\<close>

theorem resize_invalidation:
  assumes "fst (thumbnail_span_dimensions E) \<noteq> 0"
    and "snd (thumbnail_span_dimensions E) \<noteq> 0"
    and "cache_ok st"
  shows "\<exists>st'. ReinitialisePageCacheIfNeeded E st (my_width, my_height) = Inr st'
     \<and> (num_columns st' \<noteq> num_columns st
          \<or> num_rows_per_canvas_page st' \<noteq> num_rows_per_canvas_page st
          \<or> fst (last_size st) < my_width \<longrightarrow>
          clean_canvas_pages st' = [] \<and> dirty_canvas_pages st' = [])
     \<and> (num_columns st' = num_columns st
          \<and> num_rows_per_canvas_page st' = num_rows_per_canvas_page st
          \<and> my_width \<le> fst (last_size st) \<longrightarrow>
          clean_canvas_pages st' = clean_canvas_pages st
          \<and> dirty_canvas_pages st' = dirty_canvas_pages st)
     \<and> ((num_columns st' \<noteq> num_columns st
           \<or> num_rows_per_canvas_page st' \<noteq> num_rows_per_canvas_page st)
          \<and> (fst (last_size st) < my_width \<or> snd (last_size st) < my_height) \<longrightarrow>
          dirty_canvas_pages st' = [])
     \<and> (scroll_single_step E \<noteq> 0 \<longrightarrow>
          (\<exists>st''. EventResize E st (my_width, my_height) = Inr st''
             \<and> clean_canvas_pages st'' = clean_canvas_pages st'
             \<and> dirty_canvas_pages st'' = dirty_canvas_pages st'
             \<and> last_size st'' = (my_width, my_height)))"
proof -
  have "\<exists>st'. ReinitialisePageCacheIfNeeded E st (my_width, my_height) = Inr st'
     \<and> num_columns st' \<noteq> 0
     \<and> (num_columns st' \<noteq> num_columns st
          \<or> num_rows_per_canvas_page st' \<noteq> num_rows_per_canvas_page st
          \<or> fst (last_size st) < my_width \<longrightarrow>
          clean_canvas_pages st' = [] \<and> dirty_canvas_pages st' = [])
     \<and> (num_columns st' = num_columns st
          \<and> num_rows_per_canvas_page st' = num_rows_per_canvas_page st
          \<and> my_width \<le> fst (last_size st) \<longrightarrow>
          clean_canvas_pages st' = clean_canvas_pages st
          \<and> dirty_canvas_pages st' = dirty_canvas_pages st)"
    using assms
    by (auto simp add: ReinitialisePageCacheIfNeeded_def Let_def DirtyAllPages_ok cache_ok_def
        DeleteAllDirtyPages_def)
  then obtain st' where r: "ReinitialisePageCacheIfNeeded E st (my_width, my_height) = Inr st'"
    and nc: "num_columns st' \<noteq> 0"
    and a: "num_columns st' \<noteq> num_columns st
          \<or> num_rows_per_canvas_page st' \<noteq> num_rows_per_canvas_page st
          \<or> fst (last_size st) < my_width \<longrightarrow>
          clean_canvas_pages st' = [] \<and> dirty_canvas_pages st' = []"
    and b: "num_columns st' = num_columns st
          \<and> num_rows_per_canvas_page st' = num_rows_per_canvas_page st
          \<and> my_width \<le> fst (last_size st) \<longrightarrow>
          clean_canvas_pages st' = clean_canvas_pages st
          \<and> dirty_canvas_pages st' = dirty_canvas_pages st"
    by blast
  from a have c: "(num_columns st' \<noteq> num_columns st
           \<or> num_rows_per_canvas_page st' \<noteq> num_rows_per_canvas_page st)
          \<and> (fst (last_size st) < my_width \<or> snd (last_size st) < my_height) \<longrightarrow>
          dirty_canvas_pages st' = []" by blast
  have d: "scroll_single_step E \<noteq> 0 \<longrightarrow>
          (\<exists>st''. EventResize E st (my_width, my_height) = Inr st''
             \<and> clean_canvas_pages st'' = clean_canvas_pages st'
             \<and> dirty_canvas_pages st'' = dirty_canvas_pages st'
             \<and> last_size st'' = (my_width, my_height))"
    using EventResize_pools[OF r _ nc] by blast
  show ?thesis using r a b c d by blast
qed


theorem resize_invalidation_witness:
  "(\<exists>st'. ReinitialisePageCacheIfNeeded example_env example_panel (800, 400) = Inr st'
      \<and> num_columns st' \<noteq> num_columns example_panel
      \<and> clean_canvas_pages st' = [] \<and> dirty_canvas_pages st' = [])
   \<and> (\<exists>st'. ReinitialisePageCacheIfNeeded example_env example_panel (500, 600) = Inr st'
      \<and> num_columns st' = num_columns example_panel
      \<and> num_rows_per_canvas_page st' \<noteq> num_rows_per_canvas_page example_panel
      \<and> clean_canvas_pages st' = [] \<and> dirty_canvas_pages st' = [])
   \<and> (\<exists>st'. ReinitialisePageCacheIfNeeded example_env example_panel (500, 399) = Inr st'
      \<and> num_columns st' = num_columns example_panel
      \<and> num_rows_per_canvas_page st' = num_rows_per_canvas_page example_panel
      \<and> clean_canvas_pages st' = [(0, 0), (1, 1)] \<and> dirty_canvas_pages st' = [2])
   \<and> (\<exists>st'. ReinitialisePageCacheIfNeeded example_env example_panel (500, 420) = Inr st'
      \<and> num_columns st' = num_columns example_panel
      \<and> num_rows_per_canvas_page st' = num_rows_per_canvas_page example_panel
      \<and> clean_canvas_pages st' = [(0, 0), (1, 1)] \<and> dirty_canvas_pages st' = [2])
   \<and> (\<exists>st'. ReinitialisePageCacheIfNeeded example_env example_panel (510, 400) = Inr st'
      \<and> num_columns st' = num_columns example_panel
      \<and> num_rows_per_canvas_page st' = num_rows_per_canvas_page example_panel
      \<and> clean_canvas_pages st' = [] \<and> dirty_canvas_pages st' = [])
   \<and> (\<exists>st''. EventResize example_env example_panel (800, 400) = Inr st''
      \<and> clean_canvas_pages st'' = [] \<and> dirty_canvas_pages st'' = []
      \<and> last_size st'' = (800, 400))"
proof -
  have d: "cache_ok example_panel" by (simp add: cache_ok_def example_panel_def)
  have sp: "fst (thumbnail_span_dimensions example_env) \<noteq> 0"
    "snd (thumbnail_span_dimensions example_env) \<noteq> 0"
    by (simp_all add: example_env_def)
  have step: "scroll_single_step example_env \<noteq> 0" by (simp add: example_env_def)
  note unf = example_panel_def example_env_def ReinitialisePageCacheIfNeeded_def Let_def
    DirtyAllPages_ok DeleteAllDirtyPages_def
  have e: "clean_canvas_pages example_panel = [(0, 0), (1, 1)]"
    "dirty_canvas_pages example_panel = [2]" "fst (last_size example_panel) = 500"
    "num_columns example_panel = 3" "num_rows_per_canvas_page example_panel = 1"
    by (simp_all add: example_panel_def)
  from resize_invalidation[OF sp d, of 800 400]
  obtain s1 where s1: "ReinitialisePageCacheIfNeeded example_env example_panel (800, 400) = Inr s1"
     "num_columns s1 \<noteq> num_columns example_panel
        \<or> num_rows_per_canvas_page s1 \<noteq> num_rows_per_canvas_page example_panel
        \<or> fst (last_size example_panel) < 800 \<longrightarrow>
          clean_canvas_pages s1 = [] \<and> dirty_canvas_pages s1 = []"
     "scroll_single_step example_env \<noteq> 0 \<longrightarrow>
          (\<exists>st''. EventResize example_env example_panel (800, 400) = Inr st''
             \<and> clean_canvas_pages st'' = clean_canvas_pages s1
             \<and> dirty_canvas_pages st'' = dirty_canvas_pages s1
             \<and> last_size st'' = (800, 400))"
    by blast
  have c1: "num_columns s1 = 5"
    using s1(1) by (auto simp add: unf)
  have p1: "clean_canvas_pages s1 = [] \<and> dirty_canvas_pages s1 = []"
    using s1(2) c1 e by simp
  from s1(3) step p1
  have r6: "\<exists>st''. EventResize example_env example_panel (800, 400) = Inr st''
      \<and> clean_canvas_pages st'' = [] \<and> dirty_canvas_pages st'' = []
      \<and> last_size st'' = (800, 400)" by simp
  from resize_invalidation[OF sp d, of 500 600]
  obtain s2 where s2: "ReinitialisePageCacheIfNeeded example_env example_panel (500, 600) = Inr s2"
     "num_columns s2 \<noteq> num_columns example_panel
        \<or> num_rows_per_canvas_page s2 \<noteq> num_rows_per_canvas_page example_panel
        \<or> fst (last_size example_panel) < 500 \<longrightarrow>
          clean_canvas_pages s2 = [] \<and> dirty_canvas_pages s2 = []"
    by blast
  have c2: "num_columns s2 = 3" "num_rows_per_canvas_page s2 = 2"
    using s2(1) by (auto simp add: unf)
  have p2: "clean_canvas_pages s2 = [] \<and> dirty_canvas_pages s2 = []"
    using s2(2) c2 e by simp
  from resize_invalidation[OF sp d, of 500 399]
  obtain s3 where s3: "ReinitialisePageCacheIfNeeded example_env example_panel (500, 399) = Inr s3"
     "num_columns s3 = num_columns example_panel
          \<and> num_rows_per_canvas_page s3 = num_rows_per_canvas_page example_panel
          \<and> 500 \<le> fst (last_size example_panel) \<longrightarrow>
          clean_canvas_pages s3 = clean_canvas_pages example_panel
          \<and> dirty_canvas_pages s3 = dirty_canvas_pages example_panel"
    by blast
  have c3: "num_columns s3 = 3" "num_rows_per_canvas_page s3 = 1"
    using s3(1) by (auto simp add: unf)
  have p3: "clean_canvas_pages s3 = [(0, 0), (1, 1)] \<and> dirty_canvas_pages s3 = [2]"
    using s3(2) c3 e by simp
  from resize_invalidation[OF sp d, of 500 420]
  obtain s4 where s4: "ReinitialisePageCacheIfNeeded example_env example_panel (500, 420) = Inr s4"
     "num_columns s4 = num_columns example_panel
          \<and> num_rows_per_canvas_page s4 = num_rows_per_canvas_page example_panel
          \<and> 500 \<le> fst (last_size example_panel) \<longrightarrow>
          clean_canvas_pages s4 = clean_canvas_pages example_panel
          \<and> dirty_canvas_pages s4 = dirty_canvas_pages example_panel"
    by blast
  have c4: "num_columns s4 = 3" "num_rows_per_canvas_page s4 = 1"
    using s4(1) by (auto simp add: unf)
  have p4: "clean_canvas_pages s4 = [(0, 0), (1, 1)] \<and> dirty_canvas_pages s4 = [2]"
    using s4(2) c4 e by simp
  from resize_invalidation[OF sp d, of 510 400]
  obtain s5 where s5: "ReinitialisePageCacheIfNeeded example_env example_panel (510, 400) = Inr s5"
     "num_columns s5 \<noteq> num_columns example_panel
        \<or> num_rows_per_canvas_page s5 \<noteq> num_rows_per_canvas_page example_panel
        \<or> fst (last_size example_panel) < 510 \<longrightarrow>
          clean_canvas_pages s5 = [] \<and> dirty_canvas_pages s5 = []"
    by blast
  have c5: "num_columns s5 = 3" "num_rows_per_canvas_page s5 = 1"
    using s5(1) by (auto simp add: unf)
  have p5: "clean_canvas_pages s5 = [] \<and> dirty_canvas_pages s5 = []"
    using s5(2) e by simp
  show ?thesis
    using s1(1) c1 p1 s2(1) c2 p2 s3(1) c3 p3 s4(1) c4 p4 s5(1) c5 p5 r6 e by simp
qed

subsection \<open>Hit testing\<close>

text \<open>
  C10. For every mouse position (and non-zero spans), hit testing returns no item or the
  item at an index inside the sorted sequence, the index being
  \<open>columns * (y // span_y) + x // span_x\<close>. A position in the margin dead zone of a cell,
  a position whose column index is at or beyond the column count, and a position whose
  thumbnail index is negative or at or beyond the length of the sequence all return no
  item.
\<close>

theorem hit_test_in_range:
  assumes "thumbnail_span_dimensions E = (t_span_x, t_span_y)"
    and "t_span_x \<noteq> 0" and "t_span_y \<noteq> 0"
  shows "\<exists>r. GetThumbnailUnderMouse E st (x, y) = Inr r
     \<and> (case r of
           None \<Rightarrow> True
         | Some m \<Rightarrow>
             (\<exists>i < length (sorted_media st). m = sorted_media st ! i
                \<and> int i = num_columns st * (y div t_span_y) + x div t_span_x))
     \<and> (x mod t_span_x \<le> thumbnail_margin E \<or> y mod t_span_y \<le> thumbnail_margin E
          \<or> x mod t_span_x > t_span_x - thumbnail_margin E
          \<or> y mod t_span_y > t_span_y - thumbnail_margin E \<longrightarrow> r = None)
     \<and> (num_columns st \<le> x div t_span_x \<longrightarrow> r = None)
     \<and> (num_columns st * (y div t_span_y) + x div t_span_x < 0
          \<or> int (length (sorted_media st)) \<le> num_columns st * (y div t_span_y) + x div t_span_x
          \<longrightarrow> r = None)"
proof -
  let ?i = "num_columns st * (y div t_span_y) + x div t_span_x"
  have idx: "0 \<le> ?i \<Longrightarrow> ?i < int (length (sorted_media st)) \<Longrightarrow>
      \<exists>i < length (sorted_media st). sorted_media st ! nat ?i = sorted_media st ! i \<and> int i = ?i"
    by (rule exI[of _ "nat ?i"]) simp
  show ?thesis
    using assms idx
    by (auto simp: GetThumbnailUnderMouse_def Let_def py_getitem_def)
qed

theorem hit_test_in_range_witness:
  "GetThumbnailUnderMouse example_env example_panel (170, 140) = Inr (Some 14)
   \<and> 14 \<in> set (sorted_media example_panel)
   \<and> GetThumbnailUnderMouse example_env example_panel (159, 140) = Inr None
   \<and> GetThumbnailUnderMouse example_env example_panel (500, 140) = Inr None
   \<and> GetThumbnailUnderMouse example_env example_panel (170, 400) = Inr None
   \<and> GetThumbnailUnderMouse example_env example_panel (-5, 140) = Inr (Some 12)"
proof -
  have sp: "thumbnail_span_dimensions example_env = (158, 133)" "(158::int) \<noteq> 0" "(133::int) \<noteq> 0"
    by (simp_all add: example_env_def)
  have m: "thumbnail_margin example_env = 2" by (simp add: example_env_def)
  have c: "num_columns example_panel = 3" "length (sorted_media example_panel) = 7"
    "sorted_media example_panel = [10, 11, 12, 13, 14, 15, 16]"
    by (simp_all add: example_panel_def)
  from hit_test_in_range[OF sp, of example_panel 170 140]
  obtain r1 where r1: "GetThumbnailUnderMouse example_env example_panel (170, 140) = Inr r1"
    "case r1 of None \<Rightarrow> True
     | Some m \<Rightarrow> (\<exists>i < length (sorted_media example_panel). m = sorted_media example_panel ! i
          \<and> int i = num_columns example_panel * (140 div 133) + 170 div 158)"
    by blast
  have "r1 \<noteq> None" using r1(1)
    by (auto simp add: GetThumbnailUnderMouse_def Let_def py_getitem_def example_env_def
        example_panel_def)
  then obtain v where v: "r1 = Some v" by blast
  with r1(2) c have "v = 14" by auto
  with v r1 have a: "GetThumbnailUnderMouse example_env example_panel (170, 140) = Inr (Some 14)"
    by simp
  have b: "GetThumbnailUnderMouse example_env example_panel (159, 140) = Inr None"
    using hit_test_in_range[OF sp, of example_panel 159 140] m by auto
  have d: "GetThumbnailUnderMouse example_env example_panel (500, 140) = Inr None"
    using hit_test_in_range[OF sp, of example_panel 500 140] c by auto
  have e: "GetThumbnailUnderMouse example_env example_panel (170, 400) = Inr None"
    using hit_test_in_range[OF sp, of example_panel 170 400] c by auto
  have f: "GetThumbnailUnderMouse example_env example_panel (-5, 140) = Inr (Some 12)"
    by (simp add: GetThumbnailUnderMouse_def Let_def py_getitem_def example_env_def
        example_panel_def)
  show ?thesis using a b d e f c by simp
qed

subsection \<open>Frame budget of a fade\<close>

text \<open>The constant is the binary64 number nearest to one sixtieth (53 bits, half an ulp).\<close>

lemma FRAME_DURATION_60FPS_nearest:
  "\<bar>FRAME_DURATION_60FPS - 1 / 60\<bar> < 1 / 2 ^ 59
   \<and> (2::int) ^ 52 \<le> 4803839602528529 \<and> (4803839602528529::int) < 2 ^ 53"
  by (simp add: FRAME_DURATION_60FPS_def abs_if)

lemma fade_quotient:
  "FADE_DURATION_S / FRAME_DURATION_60FPS = 144115188075855872 / 4803839602528529"
  by (simp add: FADE_DURATION_S_def FRAME_DURATION_60FPS_def)

lemma fade_floor: "\<lfloor>FADE_DURATION_S / FRAME_DURATION_60FPS\<rfloor> = 30"
  unfolding fade_quotient by (rule floor_unique) simp_all

lemma fade_round: "round (FADE_DURATION_S / FRAME_DURATION_60FPS) = 30"
  unfolding fade_quotient by (rule round_unique) simp_all

lemma new_animated_eq:
  "new_ThumbnailWaitingToBeDrawnAnimated now_precise h t i b =
     Inr (ThumbnailWaitingToBeDrawnAnimated h t i b False 0 30 (AdjustOpacity b (1 / 10))
            now_precise)"
proof -
  have nz: "FRAME_DURATION_60FPS \<noteq> 0" by (simp add: FRAME_DURATION_60FPS_def)
  have q: "float_floordiv FADE_DURATION_S FRAME_DURATION_60FPS = Inr 30"
    using nz by (simp add: float_floordiv_def fade_floor)
  show ?thesis
    by (simp add: new_ThumbnailWaitingToBeDrawnAnimated_def q py_int_def Let_def)
qed

lemma new_animated:
  "\<exists>a. new_ThumbnailWaitingToBeDrawnAnimated now_precise h t i b =
     Inr (ThumbnailWaitingToBeDrawnAnimated h t i b False 0 30 a now_precise)"
  by (simp add: new_animated_eq)


lemma StopFading_entries:
  "map_of (hashes_to_thumbnails_waiting_to_be_drawn (StopFading st h)) k = Some obj \<Longrightarrow>
   map_of (hashes_to_thumbnails_waiting_to_be_drawn st) k = Some obj"
  by (auto simp: StopFading_def AList.delete_conv' split: if_splits)

lemma fade_loop_entries:
  "fade_loop E now_precise st thumbnails = Inr st' \<Longrightarrow>
   map_of (hashes_to_thumbnails_waiting_to_be_drawn st') k = Some obj \<Longrightarrow>
   map_of (hashes_to_thumbnails_waiting_to_be_drawn st) k = Some obj
   \<or> (if fade_thumbnails E
       then (\<exists>t i a. obj = ThumbnailWaitingToBeDrawnAnimated k t i (QtImage t) False 0 30 a
                             now_precise)
       else (\<exists>t i. obj = ThumbnailWaitingToBeDrawn k t i (QtImage t) False))"
proof (induction thumbnails arbitrary: st)
  case Nil
  then show ?case by simp
next
  case (Cons t thumbnails)
  note 2 = Cons.prems
  show ?case
  proof (cases "display_hash E t")
    case None
    with 2 Cons.IH[of st] show ?thesis by simp
  next
    case (Some h)
    show ?thesis
    proof (cases "index_of (sorted_media st) t")
      case (Inl e)
      with 2 Some Cons.IH[of st] show ?thesis by simp
    next
      case (Inr i)
      show ?thesis
      proof (cases "GetPageIndexFromThumbnailIndex st (int i)")
        case (Inl e)
        with 2 Some Inr show ?thesis by simp
      next
        case p: (Inr page_index)
        show ?thesis
        proof (cases "map_of (clean_canvas_pages st) page_index = None")
          case True
          with 2 Some Inr p Cons.IH[of st] show ?thesis by simp
        next
          case False
          define st1 where
            "st1 = StopFading (st\<lparr>hashes_faded := insert h (hashes_faded st)\<rparr>) h"
          define mk where
            "mk = (if fade_thumbnails E
                   then new_ThumbnailWaitingToBeDrawnAnimated now_precise h t (int i) (QtImage t)
                   else Inr (new_ThumbnailWaitingToBeDrawn h t (int i) (QtImage t)))"
          from new_animated[of now_precise h t "int i" "QtImage t"]
          obtain a where a: "new_ThumbnailWaitingToBeDrawnAnimated now_precise h t (int i) (QtImage t)
              = Inr (ThumbnailWaitingToBeDrawnAnimated h t (int i) (QtImage t) False 0 30 a
                       now_precise)"
            by blast
          define o1 where
            "o1 = (if fade_thumbnails E
                   then ThumbnailWaitingToBeDrawnAnimated h t (int i) (QtImage t) False 0 30 a
                          now_precise
                   else ThumbnailWaitingToBeDrawn h t (int i) (QtImage t) False)"
          have mk: "mk = Inr o1"
            by (simp add: mk_def o1_def a new_ThumbnailWaitingToBeDrawn_def)
          define st2 where
            "st2 = st1\<lparr>hashes_to_thumbnails_waiting_to_be_drawn :=
                         AList.update h o1 (hashes_to_thumbnails_waiting_to_be_drawn st1)\<rparr>"
          have run: "fade_loop E now_precise st2 thumbnails = Inr st'"
            using Cons.prems(1) Some Inr p False mk
            by (simp add: st1_def[symmetric] mk_def[symmetric] st2_def Let_def)
          have IH: "map_of (hashes_to_thumbnails_waiting_to_be_drawn st2) k = Some obj
            \<or> (if fade_thumbnails E
                then (\<exists>t i a. obj = ThumbnailWaitingToBeDrawnAnimated k t i (QtImage t) False 0
                                      30 a now_precise)
                else (\<exists>t i. obj = ThumbnailWaitingToBeDrawn k t i (QtImage t) False))"
            using Cons.IH[OF run Cons.prems(2)] .
          show ?thesis
          proof (cases "k = h")
            case True
            then show ?thesis using IH
              by (auto simp: st2_def AList.update_conv' o1_def split: if_splits)
          next
            case False
            then have "map_of (hashes_to_thumbnails_waiting_to_be_drawn st2) k =
                       map_of (hashes_to_thumbnails_waiting_to_be_drawn st1) k"
              by (simp add: st2_def AList.update_conv')
            then show ?thesis
              using IH StopFading_entries[of "st\<lparr>hashes_faded := insert h (hashes_faded st)\<rparr>" h k obj]
              by (auto simp: st1_def)
          qed
        qed
      qed
    qed
  qed
qed


lemma DirtyPages_pending:
  "DirtyPages st ks = Inr st' \<Longrightarrow>
   hashes_to_thumbnails_waiting_to_be_drawn st' = hashes_to_thumbnails_waiting_to_be_drawn st"
proof (induction ks arbitrary: st)
  case Nil
  then show ?case by simp
next
  case (Cons k ks)
  from Cons.prems obtain st1 where s: "DirtyPage st k = Inr st1" "DirtyPages st1 ks = Inr st'"
    by (auto split: sum.splits)
  from s(1) have "hashes_to_thumbnails_waiting_to_be_drawn st1 =
      hashes_to_thumbnails_waiting_to_be_drawn st"
    by (auto simp: DirtyPage_def Let_def split: option.splits sum.splits)
  with Cons.IH[OF s(2)] show ?case by simp
qed

text \<open>
  C9. Every draw entry that \<open>_FadeThumbnails\<close> creates has, when fading is enabled,
  \<open>frames_required = max(1, round(0.5 / frame_duration))\<close>, which is 30 for the 60 Hz frame
  period, and no frame drawn yet; when fading is disabled the entry is always due, and its
  one draw call paints the thumbnail's own bitmap at full opacity and completes it.
\<close>

theorem fade_frame_budget:
  assumes "FadeThumbnails E now_precise st thumbnails = Inr st'"
    and "map_of (hashes_to_thumbnails_waiting_to_be_drawn st') h = Some obj"
    and "map_of (hashes_to_thumbnails_waiting_to_be_drawn st) h \<noteq> Some obj"
  shows "(fade_thumbnails E \<longrightarrow>
            num_frames_to_draw obj = max 1 (round (FADE_DURATION_S / FRAME_DURATION_60FPS))
            \<and> num_frames_to_draw obj = 30
            \<and> num_frames_drawn obj = 0 \<and> \<not> DrawComplete obj)
       \<and> (\<not> fade_thumbnails E \<longrightarrow>
            (\<forall>n. DrawDue obj n
                 \<and> fst (DrawToPainter obj n) = [QtImage (obj_thumbnail obj)]
                 \<and> DrawComplete (snd (DrawToPainter obj n))))"
proof -
  have loop: "fade_loop E now_precise st thumbnails = Inr st'"
  proof (cases "thumbnails = [] \<or> \<not> is_current_page E")
    case True
    then have "hashes_to_thumbnails_waiting_to_be_drawn st' =
        hashes_to_thumbnails_waiting_to_be_drawn st"
      using assms(1) DirtyPages_pending[of st _ st']
      by (auto simp: FadeThumbnails_def DirtyAllPages_def split: if_splits)
    with assms(2,3) show ?thesis by simp
  next
    case False
    with assms(1) show ?thesis by (simp add: FadeThumbnails_def)
  qed
  from fade_loop_entries[OF loop assms(2)] assms(3)
  have "if fade_thumbnails E
        then (\<exists>t i a. obj = ThumbnailWaitingToBeDrawnAnimated h t i (QtImage t) False 0 30 a
                             now_precise)
        else (\<exists>t i. obj = ThumbnailWaitingToBeDrawn h t i (QtImage t) False)"
    by blast
  then show ?thesis
    by (auto simp: fade_round split: if_splits)
qed

theorem fade_frame_budget_witness:
  "(\<exists>st' obj. FadeThumbnails example_env 0 example_panel [14] = Inr st'
       \<and> map_of (hashes_to_thumbnails_waiting_to_be_drawn st') ''h14'' = Some obj
       \<and> num_frames_to_draw obj = 30 \<and> num_frames_drawn obj = 0)
   \<and> (\<exists>st' obj. FadeThumbnails (example_env\<lparr>fade_thumbnails := False\<rparr>) 0 example_panel [14]
         = Inr st'
       \<and> map_of (hashes_to_thumbnails_waiting_to_be_drawn st') ''h14'' = Some obj
       \<and> fst (DrawToPainter obj 0) = [QtImage 14]
       \<and> DrawComplete (snd (DrawToPainter obj 0)))"
proof -
  define s1 where "s1 = example_panel\<lparr>hashes_faded := {''h14''},
      hashes_to_thumbnails_waiting_to_be_drawn :=
        [(''h14'', ThumbnailWaitingToBeDrawnAnimated ''h14'' 14 4 (QtImage 14) False 0 30
                     (AdjustOpacity (QtImage 14) (1 / 10)) 0)]\<rparr>"
  define s2 where "s2 = example_panel\<lparr>hashes_faded := {''h14''},
      hashes_to_thumbnails_waiting_to_be_drawn :=
        [(''h14'', ThumbnailWaitingToBeDrawn ''h14'' 14 4 (QtImage 14) False)]\<rparr>"
  have r1: "FadeThumbnails example_env 0 example_panel [14] = Inr s1"
    by (simp add: FadeThumbnails_def example_env_def example_panel_def index_of_def
        GetPageIndexFromThumbnailIndex_def StopFading_def new_animated_eq s1_def Let_def)
  have r2: "FadeThumbnails (example_env\<lparr>fade_thumbnails := False\<rparr>) 0 example_panel [14] = Inr s2"
    by (simp add: FadeThumbnails_def example_env_def example_panel_def index_of_def
        GetPageIndexFromThumbnailIndex_def StopFading_def new_ThumbnailWaitingToBeDrawn_def
        s2_def Let_def)
  have old: "hashes_to_thumbnails_waiting_to_be_drawn example_panel = []"
    by (simp add: example_panel_def)
  have f1: "fade_thumbnails example_env" by (simp add: example_env_def)
  have f2: "\<not> fade_thumbnails (example_env\<lparr>fade_thumbnails := False\<rparr>)" by simp
  have m1: "map_of (hashes_to_thumbnails_waiting_to_be_drawn s1) ''h14'' =
      Some (ThumbnailWaitingToBeDrawnAnimated ''h14'' 14 4 (QtImage 14) False 0 30
              (AdjustOpacity (QtImage 14) (1 / 10)) 0)"
    by (simp add: s1_def)
  have m2: "map_of (hashes_to_thumbnails_waiting_to_be_drawn s2) ''h14'' =
      Some (ThumbnailWaitingToBeDrawn ''h14'' 14 4 (QtImage 14) False)"
    by (simp add: s2_def)
  have a: "num_frames_to_draw (ThumbnailWaitingToBeDrawnAnimated ''h14'' 14 4 (QtImage 14) False 0
        30 (AdjustOpacity (QtImage 14) (1 / 10)) 0) = 30"
    using fade_frame_budget[OF r1 m1] f1 old by simp
  have b: "fst (DrawToPainter (ThumbnailWaitingToBeDrawn ''h14'' 14 4 (QtImage 14) False) 0)
        = [QtImage 14]
      \<and> DrawComplete (snd (DrawToPainter
            (ThumbnailWaitingToBeDrawn ''h14'' 14 4 (QtImage 14) False) 0))"
    using fade_frame_budget[OF r2 m2] f2 old by simp
  show ?thesis using r1 r2 m1 m2 a b by simp
qed

subsection \<open>Animation tick\<close>

lemma animation_step_stale:
  assumes "entry_is_stale st obj" and "DrawDue obj n"
    and "num_columns st * num_rows_per_canvas_page st \<noteq> 0"
  shows "animation_step E st obj n m = Inr (True, obj, [])"
  using assms
  by (auto simp: animation_step_def entry_is_stale_def GetPageIndexFromThumbnailIndex_def
      Let_def split: sum.splits option.splits)

lemma animation_step_not_due:
  "\<not> DrawDue obj n \<Longrightarrow> animation_step E st obj n m = Inr (False, obj, [])"
  by (simp add: animation_step_def)

lemma animation_step_returns:
  assumes "num_columns st * num_rows_per_canvas_page st \<noteq> 0"
  shows "\<exists>d obj' ds. animation_step E st obj n m = Inr (d, obj', ds)"
  using assms
  by (auto simp: animation_step_def GetPageIndexFromThumbnailIndex_def Let_def
      split: sum.splits option.splits)

lemma entry_is_stale_frame:
  assumes "sorted_media st' = sorted_media st"
    and "clean_canvas_pages st' = clean_canvas_pages st"
    and "num_columns st' = num_columns st"
    and "num_rows_per_canvas_page st' = num_rows_per_canvas_page st"
  shows "entry_is_stale st' obj = entry_is_stale st obj"
  using assms by (simp add: entry_is_stale_def GetPageIndexFromThumbnailIndex_def)

lemma animation_loop_stale:
  assumes "num_columns st * num_rows_per_canvas_page st \<noteq> 0"
    and "distinct hashes"
    and "set hashes \<subseteq> fst ` set (hashes_to_thumbnails_waiting_to_be_drawn st)"
  shows "\<exists>st' draws. animation_loop E fd fw oot st hashes = Inr (st', draws)
     \<and> sorted_media st' = sorted_media st
     \<and> clean_canvas_pages st' = clean_canvas_pages st
     \<and> num_columns st' = num_columns st
     \<and> num_rows_per_canvas_page st' = num_rows_per_canvas_page st
     \<and> fst ` set draws \<subseteq> set hashes
     \<and> (\<forall>h. h \<notin> set hashes \<longrightarrow>
           map_of (hashes_to_thumbnails_waiting_to_be_drawn st') h =
           map_of (hashes_to_thumbnails_waiting_to_be_drawn st) h)
     \<and> (\<forall>h obj. map_of (hashes_to_thumbnails_waiting_to_be_drawn st) h = Some obj
             \<and> entry_is_stale st obj \<longrightarrow>
           h \<notin> fst ` set draws
           \<and> map_of (hashes_to_thumbnails_waiting_to_be_drawn st') h =
               (if h \<in> set (reached oot hashes) \<and> (DrawDue obj (fd h) \<or> DrawComplete obj)
                then None else Some obj))"
  using assms
proof (induction hashes arbitrary: st)
  case Nil
  then show ?case by simp
next
  case (Cons h0 hs)
  let ?P = "hashes_to_thumbnails_waiting_to_be_drawn"
  have "map_of (?P st) h0 \<noteq> None"
    using Cons.prems(3) by (simp add: map_of_eq_None_iff)
  then obtain obj0 where obj0: "map_of (?P st) h0 = Some obj0" by blast
  from animation_step_returns[OF Cons.prems(1)]
  obtain d obj' ds where step: "animation_step E st obj0 (fd h0) (fw h0) = Inr (d, obj', ds)"
    by blast
  define st1 where "st1 =
     (if DrawComplete obj' \<or> d
      then st\<lparr>hashes_to_thumbnails_waiting_to_be_drawn := AList.delete h0 (?P st)\<rparr>
      else st\<lparr>hashes_to_thumbnails_waiting_to_be_drawn := AList.update h0 obj' (?P st)\<rparr>)"
  have fr: "sorted_media st1 = sorted_media st" "clean_canvas_pages st1 = clean_canvas_pages st"
    "num_columns st1 = num_columns st" "num_rows_per_canvas_page st1 = num_rows_per_canvas_page st"
    by (simp_all add: st1_def)
  have other: "\<And>h. h \<noteq> h0 \<Longrightarrow> map_of (?P st1) h = map_of (?P st) h"
    by (simp add: st1_def AList.delete_conv' AList.update_conv')
  have h0hs: "h0 \<notin> set hs" "distinct hs" using Cons.prems(2) by simp_all
  have sub: "set hs \<subseteq> fst ` set (?P st1)"
  proof
    fix x assume x: "x \<in> set hs"
    then have ne: "x \<noteq> h0" using h0hs by auto
    from x Cons.prems(3) have "map_of (?P st) x \<noteq> None" by (auto simp: map_of_eq_None_iff)
    with other[OF ne] have "map_of (?P st1) x \<noteq> None" by simp
    then show "x \<in> fst ` set (?P st1)" by (simp add: map_of_eq_None_iff)
  qed
  have nz1: "num_columns st1 * num_rows_per_canvas_page st1 \<noteq> 0"
    using Cons.prems(1) fr by simp
  from Cons.IH[OF nz1 h0hs(2) sub]
  obtain st2 later where IH:
    "animation_loop E fd fw oot st1 hs = Inr (st2, later)"
    "sorted_media st2 = sorted_media st1" "clean_canvas_pages st2 = clean_canvas_pages st1"
    "num_columns st2 = num_columns st1"
    "num_rows_per_canvas_page st2 = num_rows_per_canvas_page st1"
    "fst ` set later \<subseteq> set hs"
    "\<forall>h. h \<notin> set hs \<longrightarrow> map_of (?P st2) h = map_of (?P st1) h"
    "\<forall>h obj. map_of (?P st1) h = Some obj \<and> entry_is_stale st1 obj \<longrightarrow>
           h \<notin> fst ` set later
           \<and> map_of (?P st2) h =
               (if h \<in> set (reached oot hs) \<and> (DrawDue obj (fd h) \<or> DrawComplete obj)
                then None else Some obj)"
    by blast
  have stale_eq: "\<And>obj. entry_is_stale st1 obj = entry_is_stale st obj"
    using fr by (rule entry_is_stale_frame)
  \<comment> \<open>what the step does to a stale entry\<close>
  have stale0: "entry_is_stale st obj0 \<Longrightarrow> ds = []"
    using step animation_step_stale[OF _ _ Cons.prems(1), of obj0 "fd h0" E "fw h0"]
      animation_step_not_due[of obj0 "fd h0" E st "fw h0"]
    by (cases "DrawDue obj0 (fd h0)") auto
  have stale0_map: "map_of (?P st1) h0 =
      (if DrawDue obj0 (fd h0) \<or> DrawComplete obj0 then None else Some obj0)"
    if "entry_is_stale st obj0"
  proof (cases "DrawDue obj0 (fd h0)")
    case True
    from step animation_step_stale[OF that True Cons.prems(1), of E "fw h0"]
    have "d" by simp
    then show ?thesis using True by (simp add: st1_def AList.delete_conv')
  next
    case False
    from step animation_step_not_due[OF False, of E st "fw h0"]
    have "\<not> d" "obj' = obj0" by simp_all
    then show ?thesis using False
      by (simp add: st1_def AList.delete_conv' AList.update_conv')
  qed
  show ?case
  proof (cases "oot h0")
    case True
    have run: "animation_loop E fd fw oot st (h0 # hs) = Inr (st1, map (Pair h0) ds)"
      using obj0 step True by (simp add: st1_def)
    have "\<forall>h obj. map_of (?P st) h = Some obj \<and> entry_is_stale st obj \<longrightarrow>
           h \<notin> fst ` set (map (Pair h0) ds)
           \<and> map_of (?P st1) h =
               (if h \<in> set (reached oot (h0 # hs)) \<and> (DrawDue obj (fd h) \<or> DrawComplete obj)
                then None else Some obj)"
    proof (intro allI impI)
      fix h obj assume A: "map_of (?P st) h = Some obj \<and> entry_is_stale st obj"
      show "h \<notin> fst ` set (map (Pair h0) ds)
           \<and> map_of (?P st1) h =
               (if h \<in> set (reached oot (h0 # hs)) \<and> (DrawDue obj (fd h) \<or> DrawComplete obj)
                then None else Some obj)"
      proof (cases "h = h0")
        case eq: True
        with A obj0 have o: "obj = obj0" by simp
        show ?thesis using eq o A stale0 stale0_map True by (simp add: image_iff)
      next
        case ne: False
        show ?thesis using ne A other[OF ne] True by (auto simp: image_iff)
      qed
    qed
    moreover have "fst ` set (map (Pair h0) ds) \<subseteq> set (h0 # hs)" by (auto simp: image_iff)
    moreover have "\<forall>h. h \<notin> set (h0 # hs) \<longrightarrow> map_of (?P st1) h = map_of (?P st) h"
      using other by simp
    ultimately show ?thesis unfolding run using fr by blast
  next
    case False
    have run: "animation_loop E fd fw oot st (h0 # hs) = Inr (st2, map (Pair h0) ds @ later)"
      using obj0 step False IH(1) by (simp add: st1_def)
    have a: "fst ` set (map (Pair h0) ds @ later) \<subseteq> set (h0 # hs)"
      using IH(6) by (auto simp: image_iff)
    have b: "\<forall>h. h \<notin> set (h0 # hs) \<longrightarrow> map_of (?P st2) h = map_of (?P st) h"
      using IH(7) other by auto
    have c: "\<forall>h obj. map_of (?P st) h = Some obj \<and> entry_is_stale st obj \<longrightarrow>
           h \<notin> fst ` set (map (Pair h0) ds @ later)
           \<and> map_of (?P st2) h =
               (if h \<in> set (reached oot (h0 # hs)) \<and> (DrawDue obj (fd h) \<or> DrawComplete obj)
                then None else Some obj)"
    proof (intro allI impI)
      fix h obj assume A: "map_of (?P st) h = Some obj \<and> entry_is_stale st obj"
      show "h \<notin> fst ` set (map (Pair h0) ds @ later)
           \<and> map_of (?P st2) h =
               (if h \<in> set (reached oot (h0 # hs)) \<and> (DrawDue obj (fd h) \<or> DrawComplete obj)
                then None else Some obj)"
      proof (cases "h = h0")
        case True
        with A obj0 have o: "obj = obj0" by simp
        have nl: "h0 \<notin> fst ` set later" using IH(6) h0hs by auto
        have keep: "map_of (?P st2) h0 = map_of (?P st1) h0" using IH(7) h0hs by simp
        show ?thesis using True o A stale0 stale0_map nl keep by (simp add: image_iff)
      next
        case ne: False
        from A other[OF ne] stale_eq have "map_of (?P st1) h = Some obj \<and> entry_is_stale st1 obj"
          by simp
        with IH(8) have "h \<notin> fst ` set later
           \<and> map_of (?P st2) h =
               (if h \<in> set (reached oot hs) \<and> (DrawDue obj (fd h) \<or> DrawComplete obj)
                then None else Some obj)"
          by blast
        then show ?thesis using ne False by (auto simp: image_iff)
      qed
    qed
    have fr2: "sorted_media st2 = sorted_media st" "clean_canvas_pages st2 = clean_canvas_pages st"
      "num_columns st2 = num_columns st"
      "num_rows_per_canvas_page st2 = num_rows_per_canvas_page st"
      using fr IH(2-5) by simp_all
    show ?thesis unfolding run using fr2 a b c by blast
  qed
qed

text \<open>
  C8 as stated fails: a stale entry whose animation has no frame due yet (the tick comes
  less than a frame after the fade began) is skipped by the tick and stays in the pending
  dict. The same holds for an entry the tick does not get to before its deadline.
\<close>

theorem stale_entry_kept_counterexample:
  "map_of (hashes_to_thumbnails_waiting_to_be_drawn stale_panel) ''h14'' =
     Some (ThumbnailWaitingToBeDrawnAnimated ''h14'' 14 4 (QtImage 14) False 0 30
             (AdjustOpacity (QtImage 14) (1 / 10)) 0)
   \<and> entry_is_stale stale_panel
       (ThumbnailWaitingToBeDrawnAnimated ''h14'' 14 4 (QtImage 14) False 0 30
          (AdjustOpacity (QtImage 14) (1 / 10)) 0)
   \<and> TIMERAnimationUpdate example_env (\<lambda>h. 0) (\<lambda>h. 0) (\<lambda>h. False) stale_panel [''h14'']
       = Inr (stale_panel, [])"
  by (simp add: stale_panel_def example_panel_def example_env_def entry_is_stale_def
      py_getitem_def TIMERAnimationUpdate_def animation_step_def GetNumFramesOutstanding_def)

text \<open>
  C8, amended. In every animation tick (on a well-formed panel, over keys of the pending
  dict in any order), no draw call is made for a pending fade entry whose covering page is
  no longer in the clean pool or whose remembered thumbnail index no longer holds the same
  item in the current sorted sequence; such an entry is removed from the pending dict when
  the tick gets to it before its deadline and its draw is due or already complete; and it
  stays in the pending dict, unchanged, when the tick does not get to it before its
  deadline or when its draw is neither due nor complete.
\<close>

theorem stale_entry_dropped:
  assumes "cache_ok st"
    and "distinct hashes"
    and "set hashes \<subseteq> fst ` set (hashes_to_thumbnails_waiting_to_be_drawn st)"
    and "map_of (hashes_to_thumbnails_waiting_to_be_drawn st) h = Some obj"
    and "entry_is_stale st obj"
  shows "\<exists>st' draws. TIMERAnimationUpdate E frames_due frames_draw out_of_time st hashes
           = Inr (st', draws)
     \<and> h \<notin> fst ` set draws
     \<and> (h \<in> set (reached out_of_time hashes)
          \<and> (DrawDue obj (frames_due h) \<or> DrawComplete obj) \<longrightarrow>
          map_of (hashes_to_thumbnails_waiting_to_be_drawn st') h = None)
     \<and> (h \<notin> set (reached out_of_time hashes)
          \<or> \<not> DrawDue obj (frames_due h) \<and> \<not> DrawComplete obj \<longrightarrow>
          map_of (hashes_to_thumbnails_waiting_to_be_drawn st') h = Some obj)"
proof -
  have nz: "num_columns st * num_rows_per_canvas_page st \<noteq> 0"
    using assms(1) by (auto simp: cache_ok_def)
  from animation_loop_stale[OF nz assms(2,3), of E frames_due frames_draw out_of_time]
  obtain st' draws where r:
    "animation_loop E frames_due frames_draw out_of_time st hashes = Inr (st', draws)"
    and all: "\<forall>h obj. map_of (hashes_to_thumbnails_waiting_to_be_drawn st) h = Some obj
             \<and> entry_is_stale st obj \<longrightarrow>
           h \<notin> fst ` set draws
           \<and> map_of (hashes_to_thumbnails_waiting_to_be_drawn st') h =
               (if h \<in> set (reached out_of_time hashes)
                   \<and> (DrawDue obj (frames_due h) \<or> DrawComplete obj)
                then None else Some obj)"
    by blast
  from all assms(4,5)
  have "h \<notin> fst ` set draws
     \<and> map_of (hashes_to_thumbnails_waiting_to_be_drawn st') h =
               (if h \<in> set (reached out_of_time hashes)
                   \<and> (DrawDue obj (frames_due h) \<or> DrawComplete obj)
                then None else Some obj)"
    by (elim allE[of _ h] allE[of _ obj]) simp
  then have "h \<notin> fst ` set draws
     \<and> (h \<in> set (reached out_of_time hashes)
          \<and> (DrawDue obj (frames_due h) \<or> DrawComplete obj) \<longrightarrow>
          map_of (hashes_to_thumbnails_waiting_to_be_drawn st') h = None)
     \<and> (h \<notin> set (reached out_of_time hashes)
          \<or> \<not> DrawDue obj (frames_due h) \<and> \<not> DrawComplete obj \<longrightarrow>
          map_of (hashes_to_thumbnails_waiting_to_be_drawn st') h = Some obj)"
    by (simp split: if_splits)
  with r show ?thesis unfolding TIMERAnimationUpdate_def
    by (intro exI[of _ st'] exI[of _ draws]) simp
qed


theorem stale_entry_dropped_witness:
  "(\<exists>st' draws. TIMERAnimationUpdate example_env (\<lambda>h. 1) (\<lambda>h. 1) (\<lambda>h. False) stale_panel
                  [''h14''] = Inr (st', draws)
      \<and> ''h14'' \<notin> fst ` set draws
      \<and> map_of (hashes_to_thumbnails_waiting_to_be_drawn st') ''h14'' = None)
   \<and> (\<exists>st' draws. TIMERAnimationUpdate example_env (\<lambda>h. 0) (\<lambda>h. 0) (\<lambda>h. False) stale_panel
                  [''h14''] = Inr (st', draws)
      \<and> ''h14'' \<notin> fst ` set draws
      \<and> map_of (hashes_to_thumbnails_waiting_to_be_drawn st') ''h14'' =
          Some (ThumbnailWaitingToBeDrawnAnimated ''h14'' 14 4 (QtImage 14) False 0 30
                  (AdjustOpacity (QtImage 14) (1 / 10)) 0))
   \<and> (\<exists>st' draws. TIMERAnimationUpdate example_env (\<lambda>h. 1) (\<lambda>h. 1) (\<lambda>h. True)
                  stale_pair_panel [''h14'', ''h16''] = Inr (st', draws)
      \<and> ''h16'' \<notin> fst ` set draws
      \<and> map_of (hashes_to_thumbnails_waiting_to_be_drawn st') ''h16'' =
          Some (ThumbnailWaitingToBeDrawnAnimated ''h16'' 16 6 (QtImage 16) False 0 30
                  (AdjustOpacity (QtImage 16) (1 / 10)) 0))"
proof -
  let ?obj = "ThumbnailWaitingToBeDrawnAnimated ''h14'' 14 4 (QtImage 14) False 0 30
                (AdjustOpacity (QtImage 14) (1 / 10)) 0"
  let ?obj16 = "ThumbnailWaitingToBeDrawnAnimated ''h16'' 16 6 (QtImage 16) False 0 30
                (AdjustOpacity (QtImage 16) (1 / 10)) 0"
  have ok: "cache_ok stale_panel"
    by (simp add: cache_ok_def stale_panel_def example_panel_def)
  have k: "set [''h14''] \<subseteq> fst ` set (hashes_to_thumbnails_waiting_to_be_drawn stale_panel)"
    by (simp add: stale_panel_def)
  have m: "map_of (hashes_to_thumbnails_waiting_to_be_drawn stale_panel) ''h14'' = Some ?obj"
    by (simp add: stale_panel_def)
  have s: "entry_is_stale stale_panel ?obj"
    by (simp add: entry_is_stale_def stale_panel_def example_panel_def py_getitem_def)
  have due: "DrawDue ?obj 1" by (simp add: GetNumFramesOutstanding_def)
  have ndue: "\<not> DrawDue ?obj 0" "\<not> DrawComplete ?obj"
    by (simp_all add: GetNumFramesOutstanding_def)
  have r: "''h14'' \<in> set (reached (\<lambda>h. False) [''h14''])" by simp
  have d: "distinct [''h14'']" by simp
  from stale_entry_dropped[OF ok d k m s, of example_env "\<lambda>h. 1" "\<lambda>h. 1" "\<lambda>h. False"]
  obtain st1 draws1 where
    t1: "TIMERAnimationUpdate example_env (\<lambda>h. 1) (\<lambda>h. 1) (\<lambda>h. False) stale_panel
          [''h14''] = Inr (st1, draws1)"
    and n1: "''h14'' \<notin> fst ` set draws1"
    and i1: "''h14'' \<in> set (reached (\<lambda>h. False) [''h14''])
          \<and> (DrawDue ?obj 1 \<or> DrawComplete ?obj) \<longrightarrow>
          map_of (hashes_to_thumbnails_waiting_to_be_drawn st1) ''h14'' = None"
    by blast
  from i1 due r have v1: "map_of (hashes_to_thumbnails_waiting_to_be_drawn st1) ''h14'' = None"
    by blast
  from stale_entry_dropped[OF ok d k m s, of example_env "\<lambda>h. 0" "\<lambda>h. 0" "\<lambda>h. False"]
  obtain st2 draws2 where
    t2: "TIMERAnimationUpdate example_env (\<lambda>h. 0) (\<lambda>h. 0) (\<lambda>h. False) stale_panel
          [''h14''] = Inr (st2, draws2)"
    and n2: "''h14'' \<notin> fst ` set draws2"
    and i2: "''h14'' \<notin> set (reached (\<lambda>h. False) [''h14''])
          \<or> \<not> DrawDue ?obj 0 \<and> \<not> DrawComplete ?obj \<longrightarrow>
          map_of (hashes_to_thumbnails_waiting_to_be_drawn st2) ''h14'' = Some ?obj"
    by blast
  from i2 ndue have v2: "map_of (hashes_to_thumbnails_waiting_to_be_drawn st2) ''h14'' = Some ?obj"
    by blast
  have ok3: "cache_ok stale_pair_panel"
    by (simp add: cache_ok_def stale_pair_panel_def example_panel_def)
  have k3: "set [''h14'', ''h16'']
      \<subseteq> fst ` set (hashes_to_thumbnails_waiting_to_be_drawn stale_pair_panel)"
    by (simp add: stale_pair_panel_def)
  have m3: "map_of (hashes_to_thumbnails_waiting_to_be_drawn stale_pair_panel) ''h16''
      = Some ?obj16"
    by (simp add: stale_pair_panel_def)
  have s3: "entry_is_stale stale_pair_panel ?obj16"
    by (simp add: entry_is_stale_def stale_pair_panel_def example_panel_def py_getitem_def)
  have d3: "distinct [''h14'', ''h16'']" by simp
  have r3: "''h16'' \<notin> set (reached (\<lambda>h. True) [''h14'', ''h16''])" by simp
  from stale_entry_dropped[OF ok3 d3 k3 m3 s3, of example_env "\<lambda>h. 1" "\<lambda>h. 1" "\<lambda>h. True"]
  obtain st3 draws3 where
    t3: "TIMERAnimationUpdate example_env (\<lambda>h. 1) (\<lambda>h. 1) (\<lambda>h. True) stale_pair_panel
          [''h14'', ''h16''] = Inr (st3, draws3)"
    and n3: "''h16'' \<notin> fst ` set draws3"
    and i3: "''h16'' \<notin> set (reached (\<lambda>h. True) [''h14'', ''h16''])
          \<or> \<not> DrawDue ?obj16 1 \<and> \<not> DrawComplete ?obj16 \<longrightarrow>
          map_of (hashes_to_thumbnails_waiting_to_be_drawn st3) ''h16'' = Some ?obj16"
    by blast
  from i3 r3 have v3: "map_of (hashes_to_thumbnails_waiting_to_be_drawn st3) ''h16'' = Some ?obj16"
    by blast
  have A: "\<exists>st' draws. TIMERAnimationUpdate example_env (\<lambda>h. 1) (\<lambda>h. 1) (\<lambda>h. False) stale_panel
                  [''h14''] = Inr (st', draws)
      \<and> ''h14'' \<notin> fst ` set draws
      \<and> map_of (hashes_to_thumbnails_waiting_to_be_drawn st') ''h14'' = None"
    using t1 n1 v1 by (intro exI[of _ st1] exI[of _ draws1]) simp
  have B: "\<exists>st' draws. TIMERAnimationUpdate example_env (\<lambda>h. 0) (\<lambda>h. 0) (\<lambda>h. False) stale_panel
                  [''h14''] = Inr (st', draws)
      \<and> ''h14'' \<notin> fst ` set draws
      \<and> map_of (hashes_to_thumbnails_waiting_to_be_drawn st') ''h14'' = Some ?obj"
    using t2 n2 v2 by (intro exI[of _ st2] exI[of _ draws2]) simp
  have C: "\<exists>st' draws. TIMERAnimationUpdate example_env (\<lambda>h. 1) (\<lambda>h. 1) (\<lambda>h. True)
                  stale_pair_panel [''h14'', ''h16''] = Inr (st', draws)
      \<and> ''h16'' \<notin> fst ` set draws
      \<and> map_of (hashes_to_thumbnails_waiting_to_be_drawn st') ''h16'' = Some ?obj16"
    using t3 n3 v3 by (intro exI[of _ st3] exI[of _ draws3]) simp
  from A B C show ?thesis by (intro conjI)
qed

subsection \<open>The pools of the page cache\<close>

lemma values_delete:
  "distinct (map fst al) \<Longrightarrow> map_of al k = Some c \<Longrightarrow>
   mset (map snd (AList.delete k al)) + {#c#} = mset (map snd al)"
proof (induction al)
  case Nil
  then show ?case by simp
next
  case (Cons p al)
  show ?case
  proof (cases "fst p = k")
    case True
    then have "k \<notin> fst ` set al" using Cons.prems(1) by auto
    then have "AList.delete k al = al" by simp
    with True Cons.prems(2) show ?thesis by (cases p) (simp add: AList.delete_eq)
  next
    case False
    with Cons show ?thesis by (cases p) (auto simp: AList.delete_eq)
  qed
qed

lemma distinct_subseteq_mset:
  assumes "mset xs \<subseteq># mset ys" and "distinct ys"
  shows "distinct xs"
proof -
  have le: "\<And>a. count (mset xs) a \<le> 1"
  proof -
    fix a
    have "count (mset xs) a \<le> count (mset ys) a"
      using assms(1) by (rule mset_subset_eq_count)
    also have "\<dots> \<le> 1" using assms(2) by (simp add: distinct_count_atmost_1)
    finally show "count (mset xs) a \<le> 1" .
  qed
  show ?thesis
    unfolding distinct_count_atmost_1
  proof (intro allI)
    fix a
    show "count (mset xs) a = (if a \<in> set xs then 1 else 0)"
      using le[of a] by (cases "a \<in> set xs") (auto simp: count_eq_zero_iff Suc_le_eq
          dest: le_antisym)
  qed
qed

lemma update_absent: "k \<notin> fst ` set al \<Longrightarrow> AList.update k v al = al @ [(k, v)]"
  by (induction al) auto

lemma cache_ok_pools:
  assumes "cache_ok st"
    and "distinct (map fst (clean_canvas_pages st'))"
    and "mset (map snd (clean_canvas_pages st') @ dirty_canvas_pages st')
         \<subseteq># mset (map snd (clean_canvas_pages st) @ dirty_canvas_pages st)"
    and "list_all (\<lambda>k. 0 \<le> k) (map fst (clean_canvas_pages st'))"
    and "next_canvas_page st' = next_canvas_page st"
    and "num_columns st' = num_columns st"
    and "num_rows_per_canvas_page st' = num_rows_per_canvas_page st"
  shows "cache_ok st'"
proof -
  have d: "distinct (map snd (clean_canvas_pages st) @ dirty_canvas_pages st)"
    using assms(1) by (simp add: cache_ok_def)
  from distinct_subseteq_mset[OF assms(3) this]
  have d': "distinct (map snd (clean_canvas_pages st') @ dirty_canvas_pages st')" .
  have "set (map snd (clean_canvas_pages st') @ dirty_canvas_pages st')
      \<subseteq> set (map snd (clean_canvas_pages st) @ dirty_canvas_pages st)"
    using set_mset_mono[OF assms(3)] by (simp only: set_mset_mset)
  then have b: "list_all (\<lambda>c. c < next_canvas_page st')
      (map snd (clean_canvas_pages st') @ dirty_canvas_pages st')"
    using assms(1,5) unfolding cache_ok_def list_all_iff by (metis subsetD)
  show ?thesis
    using assms(1,2,4,6,7) d' b unfolding cache_ok_def by simp
qed

lemma cache_ok_disjoint:
  "cache_ok st \<Longrightarrow> set (map snd (clean_canvas_pages st)) \<inter> set (dirty_canvas_pages st) = {}"
  by (auto simp: cache_ok_def)

lemma cache_ok_key_nonneg:
  "cache_ok st \<Longrightarrow> k \<in> fst ` set (clean_canvas_pages st) \<Longrightarrow>
   0 \<le> num_columns st * num_rows_per_canvas_page st * k"
  by (auto simp: cache_ok_def list_all_iff)

lemma DirtyPage_cache_ok:
  assumes "cache_ok st" and "DirtyPage st k = Inr st'"
  shows "cache_ok st'
     \<and> fst ` set (clean_canvas_pages st') = fst ` set (clean_canvas_pages st) - {k}
     \<and> dirty_canvas_pages st' \<noteq> []
     \<and> sorted_media st' = sorted_media st"
proof -
  from assms(2) obtain c where c: "map_of (clean_canvas_pages st) k = Some c"
    by (auto simp: DirtyPage_def split: option.splits)
  then have kin: "k \<in> fst ` set (clean_canvas_pages st)"
    by (metis map_of_eq_None_iff option.distinct(1))
  have eq: "st' = st\<lparr>clean_canvas_pages := AList.delete k (clean_canvas_pages st),
             dirty_canvas_pages := dirty_canvas_pages st @ [c]\<rparr>"
    using DirtyPage_ok[OF c cache_ok_key_nonneg[OF assms(1) kin]] assms(2) by simp
  have dk: "distinct (map fst (clean_canvas_pages st))" using assms(1) by (simp add: cache_ok_def)
  have keys: "fst ` set (clean_canvas_pages st') = fst ` set (clean_canvas_pages st) - {k}"
    by (auto simp: eq AList.delete_eq image_iff)
  have "mset (map snd (clean_canvas_pages st') @ dirty_canvas_pages st')
      = mset (map snd (clean_canvas_pages st) @ dirty_canvas_pages st)"
    using values_delete[OF dk c] by (simp add: eq)
  then have sub: "mset (map snd (clean_canvas_pages st') @ dirty_canvas_pages st')
      \<subseteq># mset (map snd (clean_canvas_pages st) @ dirty_canvas_pages st)"
    by simp
  have d': "distinct (map fst (clean_canvas_pages st'))"
    using dk by (simp add: eq AList.distinct_delete)
  have nn: "list_all (\<lambda>k. 0 \<le> k) (map fst (clean_canvas_pages st'))"
    using assms(1) keys unfolding cache_ok_def list_all_iff by auto
  have "cache_ok st'"
    by (rule cache_ok_pools[OF assms(1) d' sub nn]) (simp_all add: eq)
  then show ?thesis using keys by (simp add: eq)
qed

lemma DirtyAllPages_cache_ok:
  assumes "cache_ok st"
  shows "\<exists>st'. DirtyAllPages st = Inr st' \<and> cache_ok st' \<and> clean_canvas_pages st' = []
     \<and> num_rows_per_canvas_page st' = num_rows_per_canvas_page st
     \<and> num_columns st' = num_columns st \<and> sorted_media st' = sorted_media st"
proof -
  let ?st' = "st\<lparr>clean_canvas_pages := [],
      dirty_canvas_pages := dirty_canvas_pages st @ map snd (clean_canvas_pages st)\<rparr>"
  have r: "DirtyAllPages st = Inr ?st'"
    using assms by (intro DirtyAllPages_ok) (simp_all add: cache_ok_def)
  have "cache_ok ?st'"
    by (rule cache_ok_pools[OF assms]) simp_all
  with r show ?thesis by simp
qed

lemma CreateNewDirtyPage_cache_ok:
  assumes "cache_ok st"
  shows "cache_ok (CreateNewDirtyPage st)"
  using assms
  by (auto simp: cache_ok_def CreateNewDirtyPage_def Let_def list_all_iff less_Suc_eq)

lemma DeleteAllDirtyPages_cache_ok:
  assumes "cache_ok st"
  shows "cache_ok (DeleteAllDirtyPages st)"
  using assms by (auto simp: cache_ok_def DeleteAllDirtyPages_def list_all_iff)

lemma draw_canvas_loop_frame:
  "clean_canvas_pages (draw_canvas_loop E st ts) = clean_canvas_pages st
   \<and> dirty_canvas_pages (draw_canvas_loop E st ts) = dirty_canvas_pages st
   \<and> next_canvas_page (draw_canvas_loop E st ts) = next_canvas_page st
   \<and> num_columns (draw_canvas_loop E st ts) = num_columns st
   \<and> num_rows_per_canvas_page (draw_canvas_loop E st ts) = num_rows_per_canvas_page st
   \<and> sorted_media (draw_canvas_loop E st ts) = sorted_media st"
  by (induction E st ts rule: draw_canvas_loop.induct)
     (auto simp: StopFading_def split: option.splits)

lemma DrawCanvasPage_frame:
  assumes "0 \<le> num_columns st * num_rows_per_canvas_page st * page_index"
  shows "\<exists>st'. DrawCanvasPage E st page_index canvas_page = Inr st'
     \<and> clean_canvas_pages st' = clean_canvas_pages st
     \<and> dirty_canvas_pages st' = dirty_canvas_pages st
     \<and> next_canvas_page st' = next_canvas_page st
     \<and> num_columns st' = num_columns st
     \<and> num_rows_per_canvas_page st' = num_rows_per_canvas_page st
     \<and> sorted_media st' = sorted_media st"
proof -
  from GetThumbnailsFromPageIndex_ok[OF assms]
  obtain r where "GetThumbnailsFromPageIndex st page_index = Inr r" by blast
  then show ?thesis
    using draw_canvas_loop_frame[of E st r] by (simp add: DrawCanvasPage_def)
qed

subsection \<open>The paint pass\<close>

lemma get_dirty_buffer:
  assumes "cache_ok st" and "distinct potential"
    and "set potential \<subseteq> fst ` set (clean_canvas_pages st)"
    and "set potential \<inter> T = {}"
  shows "\<exists>st1 potential1.
     (if dirty_canvas_pages st = []
      then (if potential \<noteq> []
            then (case DirtyPage st (last potential) of
                    Inl e \<Rightarrow> Inl e
                  | Inr s \<Rightarrow> Inr (s, butlast potential))
            else Inr (CreateNewDirtyPage st, potential))
      else Inr (st, potential)) = Inr (st1, potential1)
     \<and> cache_ok st1 \<and> dirty_canvas_pages st1 \<noteq> []
     \<and> distinct potential1
     \<and> set potential1 \<subseteq> fst ` set (clean_canvas_pages st1)
     \<and> set potential1 \<inter> T = {}
     \<and> fst ` set (clean_canvas_pages st1) \<inter> T = fst ` set (clean_canvas_pages st) \<inter> T
     \<and> fst ` set (clean_canvas_pages st1) \<subseteq> fst ` set (clean_canvas_pages st)"
proof (cases "dirty_canvas_pages st = []")
  case False
  with assms show ?thesis by simp
next
  case True
  show ?thesis
  proof (cases "potential = []")
    case e: True
    have "dirty_canvas_pages (CreateNewDirtyPage st) \<noteq> []"
      "clean_canvas_pages (CreateNewDirtyPage st) = clean_canvas_pages st"
      by (simp_all add: CreateNewDirtyPage_def Let_def)
    with True e CreateNewDirtyPage_cache_ok[OF assms(1)] show ?thesis by simp
  next
    case ne: False
    define k where "k = last potential"
    have pot: "potential = butlast potential @ [k]" using ne by (simp add: k_def)
    have kin: "k \<in> fst ` set (clean_canvas_pages st)"
      using assms(3) ne k_def last_in_set by fastforce
    then have "map_of (clean_canvas_pages st) k \<noteq> None" by (simp add: map_of_eq_None_iff)
    then obtain c where c: "map_of (clean_canvas_pages st) k = Some c" by blast
    from DirtyPage_ok[OF c cache_ok_key_nonneg[OF assms(1) kin]]
    obtain s where s: "DirtyPage st k = Inr s" by blast
    from DirtyPage_cache_ok[OF assms(1) s]
    have ok: "cache_ok s"
      and keys: "fst ` set (clean_canvas_pages s) = fst ` set (clean_canvas_pages st) - {k}"
      and dne: "dirty_canvas_pages s \<noteq> []"
      by simp_all
    have dk: "distinct (butlast potential)" "k \<notin> set (butlast potential)"
      using assms(2) pot by (metis distinct_butlast, metis distinct_append disjoint_iff
          list.set_intros(1) pot assms(2))
    have sub: "set (butlast potential) \<subseteq> fst ` set (clean_canvas_pages s)"
      using assms(3) dk(2) keys in_set_butlastD by fastforce
    have dis: "set (butlast potential) \<inter> T = {}"
      using assms(4) in_set_butlastD by fastforce
    have kT: "k \<notin> T" using assms(4) ne k_def last_in_set by fastforce
    have kt: "fst ` set (clean_canvas_pages s) \<inter> T = fst ` set (clean_canvas_pages st) \<inter> T"
      using keys kT by auto
    show ?thesis
      using True ne s ok dne dk(1) sub dis kt keys by (simp add: k_def[symmetric])
  qed
qed

lemma place_page:
  assumes "cache_ok st1" and "dirty_canvas_pages st1 \<noteq> []"
    and "p \<notin> fst ` set (clean_canvas_pages st1)" and "0 \<le> p"
  shows "\<exists>st3. DrawCanvasPage E (st1\<lparr>dirty_canvas_pages := butlast (dirty_canvas_pages st1)\<rparr>)
                  p (last (dirty_canvas_pages st1)) = Inr st3
     \<and> cache_ok (st3\<lparr>clean_canvas_pages :=
           AList.update p (last (dirty_canvas_pages st1)) (clean_canvas_pages st3)\<rparr>)
     \<and> clean_canvas_pages st3 = clean_canvas_pages st1"
proof -
  let ?c = "last (dirty_canvas_pages st1)"
  let ?st2 = "st1\<lparr>dirty_canvas_pages := butlast (dirty_canvas_pages st1)\<rparr>"
  have nn: "0 \<le> num_columns ?st2 * num_rows_per_canvas_page ?st2 * p"
    using assms(1,4) by (auto simp: cache_ok_def)
  from DrawCanvasPage_frame[OF nn, of E ?c]
  obtain st3 where st3: "DrawCanvasPage E ?st2 p ?c = Inr st3"
     "clean_canvas_pages st3 = clean_canvas_pages st1"
     "dirty_canvas_pages st3 = butlast (dirty_canvas_pages st1)"
     "next_canvas_page st3 = next_canvas_page st1"
     "num_columns st3 = num_columns st1"
     "num_rows_per_canvas_page st3 = num_rows_per_canvas_page st1"
    by auto
  let ?st4 = "st3\<lparr>clean_canvas_pages := AList.update p ?c (clean_canvas_pages st3)\<rparr>"
  have cl: "clean_canvas_pages ?st4 = clean_canvas_pages st1 @ [(p, ?c)]"
    using update_absent[OF assms(3)] st3(2) by simp
  have dd: "dirty_canvas_pages st1 = butlast (dirty_canvas_pages st1) @ [?c]"
    using assms(2) by simp
  have "mset (map snd (clean_canvas_pages ?st4) @ dirty_canvas_pages ?st4)
      = mset (map snd (clean_canvas_pages st1)) + mset (butlast (dirty_canvas_pages st1) @ [?c])"
    using st3(3) by (simp add: cl)
  also have "\<dots> = mset (map snd (clean_canvas_pages st1) @ dirty_canvas_pages st1)"
    using dd by (metis mset_append)
  finally have sub: "mset (map snd (clean_canvas_pages ?st4) @ dirty_canvas_pages ?st4)
      \<subseteq># mset (map snd (clean_canvas_pages st1) @ dirty_canvas_pages st1)"
    by simp
  have dk: "distinct (map fst (clean_canvas_pages ?st4))"
    using assms(1,3) by (simp add: cl cache_ok_def)
  have nk: "list_all (\<lambda>k. 0 \<le> k) (map fst (clean_canvas_pages ?st4))"
    using assms(1,4) by (simp add: cl cache_ok_def)
  have "cache_ok ?st4"
    by (rule cache_ok_pools[OF assms(1) dk sub nk]) (simp_all add: st3)
  with st3 show ?thesis by simp
qed

lemma paint_loop_ok:
  assumes "cache_ok st" and "distinct potential"
    and "set potential \<subseteq> fst ` set (clean_canvas_pages st)"
    and "set potential \<inter> T = {}"
    and "set ps \<subseteq> T" and "\<forall>p \<in> T. 0 \<le> p"
  shows "\<exists>st'. paint_loop E st potential ps = Inr st' \<and> cache_ok st'
     \<and> (\<forall>q \<in> T. q \<in> set ps \<or> q \<in> fst ` set (clean_canvas_pages st) \<longrightarrow>
           q \<in> fst ` set (clean_canvas_pages st'))"
  using assms
proof (induction ps arbitrary: st potential)
  case Nil
  then show ?case by simp
next
  case (Cons p ps)
  have pT: "p \<in> T" "set ps \<subseteq> T" using Cons.prems(5) by simp_all
  show ?case
  proof (cases "map_of (clean_canvas_pages st) p = None")
    case False
    then have pin: "p \<in> fst ` set (clean_canvas_pages st)" by (simp add: map_of_eq_None_iff)
    from Cons.IH[OF Cons.prems(1-4) pT(2) Cons.prems(6)]
    obtain st' where r: "paint_loop E st potential ps = Inr st'" "cache_ok st'"
      "\<forall>q \<in> T. q \<in> set ps \<or> q \<in> fst ` set (clean_canvas_pages st) \<longrightarrow>
           q \<in> fst ` set (clean_canvas_pages st')"
      by blast
    have "paint_loop E st potential (p # ps) = paint_loop E st potential ps"
      by (subst paint_loop.simps(2)) (simp only: False if_False)
    then have "paint_loop E st potential (p # ps) = Inr st'" using r(1) by simp
    moreover have "\<forall>q \<in> T. q \<in> set (p # ps) \<or> q \<in> fst ` set (clean_canvas_pages st) \<longrightarrow>
           q \<in> fst ` set (clean_canvas_pages st')"
      using r(3) pin by auto
    ultimately show ?thesis using r(2) by blast
  next
    case True
    then have pnot: "p \<notin> fst ` set (clean_canvas_pages st)" by (simp add: map_of_eq_None_iff)
    define buf where "buf =
      (if dirty_canvas_pages st = []
        then (if potential \<noteq> []
              then (case DirtyPage st (last potential) of
                      Inl e \<Rightarrow> Inl e
                    | Inr s \<Rightarrow> Inr (s, butlast potential))
              else Inr (CreateNewDirtyPage st, potential))
        else Inr (st, potential))"
    have ex: "\<exists>st1 potential1. buf = Inr (st1, potential1)
       \<and> cache_ok st1 \<and> dirty_canvas_pages st1 \<noteq> []
       \<and> distinct potential1
       \<and> set potential1 \<subseteq> fst ` set (clean_canvas_pages st1)
       \<and> set potential1 \<inter> T = {}
       \<and> fst ` set (clean_canvas_pages st1) \<inter> T = fst ` set (clean_canvas_pages st) \<inter> T
       \<and> fst ` set (clean_canvas_pages st1) \<subseteq> fst ` set (clean_canvas_pages st)"
      unfolding buf_def by (rule get_dirty_buffer[OF Cons.prems(1-4)])
    from ex obtain st1 where ex1: "\<exists>potential1. buf = Inr (st1, potential1)
       \<and> cache_ok st1 \<and> dirty_canvas_pages st1 \<noteq> []
       \<and> distinct potential1
       \<and> set potential1 \<subseteq> fst ` set (clean_canvas_pages st1)
       \<and> set potential1 \<inter> T = {}
       \<and> fst ` set (clean_canvas_pages st1) \<inter> T = fst ` set (clean_canvas_pages st) \<inter> T
       \<and> fst ` set (clean_canvas_pages st1) \<subseteq> fst ` set (clean_canvas_pages st)" ..
    from ex1 obtain potential1 where g0: "buf = Inr (st1, potential1)
       \<and> cache_ok st1 \<and> dirty_canvas_pages st1 \<noteq> []
       \<and> distinct potential1
       \<and> set potential1 \<subseteq> fst ` set (clean_canvas_pages st1)
       \<and> set potential1 \<inter> T = {}
       \<and> fst ` set (clean_canvas_pages st1) \<inter> T = fst ` set (clean_canvas_pages st) \<inter> T
       \<and> fst ` set (clean_canvas_pages st1) \<subseteq> fst ` set (clean_canvas_pages st)" ..
    note g = g0[THEN conjunct1] g0[THEN conjunct2, THEN conjunct1]
      g0[THEN conjunct2, THEN conjunct2, THEN conjunct1]
      g0[THEN conjunct2, THEN conjunct2, THEN conjunct2, THEN conjunct1]
      g0[THEN conjunct2, THEN conjunct2, THEN conjunct2, THEN conjunct2, THEN conjunct1]
      g0[THEN conjunct2, THEN conjunct2, THEN conjunct2, THEN conjunct2, THEN conjunct2,
         THEN conjunct1]
      g0[THEN conjunct2, THEN conjunct2, THEN conjunct2, THEN conjunct2, THEN conjunct2,
         THEN conjunct2, THEN conjunct1]
      g0[THEN conjunct2, THEN conjunct2, THEN conjunct2, THEN conjunct2, THEN conjunct2,
         THEN conjunct2, THEN conjunct2]
    have pnot1: "p \<notin> fst ` set (clean_canvas_pages st1)" using pnot g(8) by auto
    have p0: "0 \<le> p" using pT(1) Cons.prems(6) by simp
    let ?c = "last (dirty_canvas_pages st1)"
    from place_page[OF g(2,3) pnot1 p0, of E]
    obtain st3 where pl:
      "DrawCanvasPage E (st1\<lparr>dirty_canvas_pages := butlast (dirty_canvas_pages st1)\<rparr>) p ?c
         = Inr st3"
      "cache_ok (st3\<lparr>clean_canvas_pages := AList.update p ?c (clean_canvas_pages st3)\<rparr>)"
      "clean_canvas_pages st3 = clean_canvas_pages st1"
      by blast
    let ?st4 = "st3\<lparr>clean_canvas_pages := AList.update p ?c (clean_canvas_pages st3)\<rparr>"
    have keys4: "fst ` set (clean_canvas_pages ?st4) = insert p (fst ` set (clean_canvas_pages st1))"
      using update_absent[OF pnot1, of ?c] pl(3) by simp
    have sub4: "set potential1 \<subseteq> fst ` set (clean_canvas_pages ?st4)"
      using g(5) keys4 by auto
    from Cons.IH[OF pl(2) g(4) sub4 g(6) pT(2) Cons.prems(6)]
    obtain st' where r: "paint_loop E ?st4 potential1 ps = Inr st'" "cache_ok st'"
      "\<forall>q \<in> T. q \<in> set ps \<or> q \<in> fst ` set (clean_canvas_pages ?st4) \<longrightarrow>
           q \<in> fst ` set (clean_canvas_pages st')"
      by blast
    have run: "paint_loop E st potential (p # ps) = Inr st'"
      by (subst paint_loop.simps(2))
         (simp only: True g(1)[unfolded buf_def] g(3) pl(1) r(1) Let_def simp_thms if_True
            if_False sum.case prod.case)
    have "\<forall>q \<in> T. q \<in> set (p # ps) \<or> q \<in> fst ` set (clean_canvas_pages st) \<longrightarrow>
           q \<in> fst ` set (clean_canvas_pages st')"
    proof (intro ballI impI)
      fix q assume q: "q \<in> T" "q \<in> set (p # ps) \<or> q \<in> fst ` set (clean_canvas_pages st)"
      have "q \<in> set ps \<or> q \<in> fst ` set (clean_canvas_pages ?st4)"
        using q g(7) keys4 by auto
      with r(3) q(1) show "q \<in> fst ` set (clean_canvas_pages st')" by blast
    qed
    with run r(2) show ?thesis by blast
  qed
qed

lemma page_indices_to_draw_set:
  assumes "a \<le> b"
  shows "set (page_indices_to_draw [a..b]) =
         {a..b} \<union> (if a > 0 then {a - 1} else {}) \<union> {b + 1}"
proof -
  have mn: "Min (set [a..b]) = a" using assms by (intro Min_eqI) auto
  have mx: "Max (set [a..b]) = b" using assms by (intro Max_eqI) auto
  show ?thesis unfolding page_indices_to_draw_def Let_def mn mx by auto
qed

lemma dpr_step_cache_ok:
  assumes "cache_ok st"
  shows "\<exists>st1. (if dpr \<noteq> last_device_pixel_ratio st
            then (case DirtyAllPages (st\<lparr>last_device_pixel_ratio := dpr\<rparr>) of
                    Inl e \<Rightarrow> Inl e
                  | Inr s \<Rightarrow> Inr (DeleteAllDirtyPages s))
            else Inr st) = Inr st1
     \<and> cache_ok st1
     \<and> num_rows_per_canvas_page st1 = num_rows_per_canvas_page st"
proof (cases "dpr \<noteq> last_device_pixel_ratio st")
  case False
  with assms show ?thesis by simp
next
  case True
  have "cache_ok (st\<lparr>last_device_pixel_ratio := dpr\<rparr>)"
    using assms by (simp add: cache_ok_def)
  from DirtyAllPages_cache_ok[OF this]
  obtain s where s: "DirtyAllPages (st\<lparr>last_device_pixel_ratio := dpr\<rparr>) = Inr s" "cache_ok s"
    "num_rows_per_canvas_page s = num_rows_per_canvas_page st"
    by auto
  have "num_rows_per_canvas_page (DeleteAllDirtyPages s) = num_rows_per_canvas_page st"
    using s(3) by (simp add: DeleteAllDirtyPages_def)
  with True s DeleteAllDirtyPages_cache_ok[OF s(2)] show ?thesis by simp
qed

lemma paintEvent_ok:
  assumes "cache_ok st"
    and "0 \<le> y_start" and "0 \<le> visible_height"
    and "0 < snd (thumbnail_span_dimensions E)"
    and "\<forall>xs. mset (shuffle xs) = mset xs"
  shows "\<exists>st'. paintEvent E st dpr y_start visible_height shuffle = Inr st' \<and> cache_ok st'
     \<and> (\<forall>p \<in> set (page_indices_to_draw
                     [y_start div (num_rows_per_canvas_page st * snd (thumbnail_span_dimensions E))
                      .. (y_start + visible_height)
                           div (num_rows_per_canvas_page st * snd (thumbnail_span_dimensions E))]).
           map_of (clean_canvas_pages st') p \<noteq> None)"
proof -
  define ph where "ph = num_rows_per_canvas_page st * snd (thumbnail_span_dimensions E)"
  define first where "first = (if dpr \<noteq> last_device_pixel_ratio st
            then (case DirtyAllPages (st\<lparr>last_device_pixel_ratio := dpr\<rparr>) of
                    Inl e \<Rightarrow> Inl e
                  | Inr s \<Rightarrow> Inr (DeleteAllDirtyPages s))
            else Inr st)"
  have "\<exists>st1. first = Inr st1 \<and> cache_ok st1
     \<and> num_rows_per_canvas_page st1 = num_rows_per_canvas_page st"
    unfolding first_def by (rule dpr_step_cache_ok[OF assms(1)])
  then obtain st1 where st1: "first = Inr st1" "cache_ok st1"
     "num_rows_per_canvas_page st1 = num_rows_per_canvas_page st"
    by blast
  have php: "0 < ph" using assms(1,4) by (simp add: ph_def cache_ok_def)
  define a where "a = y_start div ph"
  define b where "b = (y_start + visible_height) div ph"
  have a0: "0 \<le> a" using assms(2) php by (simp add: a_def pos_imp_zdiv_nonneg_iff)
  have ab: "a \<le> b" using assms(3) php unfolding a_def b_def by (intro zdiv_mono1) simp_all
  have phz: "num_rows_per_canvas_page st1 * snd (thumbnail_span_dimensions E) \<noteq> 0"
  proof -
    have "ph \<noteq> 0" using php by simp
    then show ?thesis unfolding ph_def st1(3) .
  qed
  have vis: "CalculateVisiblePageIndices E st1 y_start visible_height = Inr [a..b]"
    unfolding CalculateVisiblePageIndices_def Let_def
    using phz st1(3) by (simp only: if_False a_def b_def ph_def)
  have ne: "[a..b] \<noteq> []" using ab by (simp add: upto.simps)
  define T where "T = set (page_indices_to_draw [a..b])"
  have Tset: "T = {a..b} \<union> (if a > 0 then {a - 1} else {}) \<union> {b + 1}"
    unfolding T_def by (rule page_indices_to_draw_set[OF ab])
  have Tnn: "\<forall>p \<in> T. 0 \<le> p" using a0 ab unfolding Tset by auto
  define pot where "pot = shuffle (filter (\<lambda>page_index. page_index \<notin> T)
                                   (map fst (clean_canvas_pages st1)))"
  have pm: "mset pot = mset (filter (\<lambda>page_index. page_index \<notin> T)
                                   (map fst (clean_canvas_pages st1)))"
    using assms(5) by (simp add: pot_def)
  have dk: "distinct (map fst (clean_canvas_pages st1))" using st1(2) by (simp add: cache_ok_def)
  have pd: "distinct pot"
    using mset_eq_imp_distinct_iff[OF pm] dk by simp
  have ps: "set pot = set (filter (\<lambda>page_index. page_index \<notin> T)
                                   (map fst (clean_canvas_pages st1)))"
    using mset_eq_setD[OF pm] .
  have psub: "set pot \<subseteq> fst ` set (clean_canvas_pages st1)" using ps by auto
  have pdis: "set pot \<inter> T = {}" using ps by auto
  have "set (page_indices_to_draw [a..b]) \<subseteq> T" by (simp add: T_def)
  from paint_loop_ok[OF st1(2) pd psub pdis this Tnn, of E]
  obtain st' where r: "paint_loop E st1 pot (page_indices_to_draw [a..b]) = Inr st'"
    "cache_ok st'"
    "\<forall>q \<in> T. q \<in> set (page_indices_to_draw [a..b]) \<or> q \<in> fst ` set (clean_canvas_pages st1)
        \<longrightarrow> q \<in> fst ` set (clean_canvas_pages st')"
    by blast
  have run: "paintEvent E st dpr y_start visible_height shuffle = Inr st'"
    unfolding paintEvent_def first_def[symmetric]
    by (simp only: st1(1) sum.case vis ne if_False Let_def T_def[symmetric] pot_def[symmetric] r(1))
  have "\<forall>p \<in> T. map_of (clean_canvas_pages st') p \<noteq> None"
    using r(3) by (auto simp: T_def map_of_eq_None_iff)
  with run r(2) show ?thesis
    unfolding T_def a_def b_def ph_def by blast
qed

lemma ReinitialisePageCacheIfNeeded_cache_ok:
  assumes "cache_ok st" and "ReinitialisePageCacheIfNeeded E st my_size = Inr st'"
  shows "cache_ok st'"
proof -
  define st2 where "st2 = st\<lparr>num_rows_per_actual_page :=
        max 1 (snd my_size div snd (thumbnail_span_dimensions E)),
      num_rows_per_canvas_page := max 1 (snd my_size div snd (thumbnail_span_dimensions E) div 2),
      num_columns := max 1 (fst my_size div fst (thumbnail_span_dimensions E))\<rparr>"
  have ok2: "cache_ok st2" using assms(1) by (simp add: st2_def cache_ok_def)
  from DirtyAllPages_cache_ok[OF ok2]
  obtain s where s: "DirtyAllPages st2 = Inr s" "cache_ok s" by blast
  have "st' = st2 \<or> st' = DeleteAllDirtyPages s"
    using assms(2) s(1)
    by (auto simp: ReinitialisePageCacheIfNeeded_def Let_def st2_def split: if_splits)
  then show ?thesis using ok2 DeleteAllDirtyPages_cache_ok[OF s(2)] by auto
qed

text \<open>
  C2. The dirty pool holds canvas pages without an index, so a page is identified by its
  canvas page: on a well-formed panel no canvas page is in both the clean and the dirty
  pool (nor twice in either), every cache operation (\<open>_DirtyPage\<close>, \<open>_DirtyAllPages\<close>,
  \<open>_CreateNewDirtyPage\<close>, \<open>_DeleteAllDirtyPages\<close>, the recomputation on resize and the
  paint pass) keeps the panel well-formed, and the paint pass returns with every page
  index it set out to draw in the clean pool, whatever order the shuffle produced.
\<close>

theorem page_cache_pools:
  assumes "cache_ok st"
    and "0 \<le> y_start" and "0 \<le> visible_height"
    and "0 < snd (thumbnail_span_dimensions E)"
    and "\<forall>xs. mset (shuffle xs) = mset xs"
  shows "set (map snd (clean_canvas_pages st)) \<inter> set (dirty_canvas_pages st) = {}
     \<and> (\<forall>k st'. DirtyPage st k = Inr st' \<longrightarrow> cache_ok st')
     \<and> (\<exists>st'. DirtyAllPages st = Inr st' \<and> cache_ok st')
     \<and> cache_ok (CreateNewDirtyPage st)
     \<and> cache_ok (DeleteAllDirtyPages st)
     \<and> (\<forall>my_size st'. ReinitialisePageCacheIfNeeded E st my_size = Inr st' \<longrightarrow> cache_ok st')
     \<and> (\<exists>st'. paintEvent E st dpr y_start visible_height shuffle = Inr st' \<and> cache_ok st'
          \<and> set (map snd (clean_canvas_pages st')) \<inter> set (dirty_canvas_pages st') = {}
          \<and> (\<forall>p \<in> set (page_indices_to_draw
                 [y_start div (num_rows_per_canvas_page st * snd (thumbnail_span_dimensions E))
                  .. (y_start + visible_height)
                       div (num_rows_per_canvas_page st * snd (thumbnail_span_dimensions E))]).
                map_of (clean_canvas_pages st') p \<noteq> None))"
proof -
  have 1: "set (map snd (clean_canvas_pages st)) \<inter> set (dirty_canvas_pages st) = {}"
    by (rule cache_ok_disjoint[OF assms(1)])
  have 2: "\<forall>k st'. DirtyPage st k = Inr st' \<longrightarrow> cache_ok st'"
    using DirtyPage_cache_ok[OF assms(1)] by blast
  have 3: "\<exists>st'. DirtyAllPages st = Inr st' \<and> cache_ok st'"
    using DirtyAllPages_cache_ok[OF assms(1)] by blast
  have 4: "cache_ok (CreateNewDirtyPage st)" by (rule CreateNewDirtyPage_cache_ok[OF assms(1)])
  have 5: "cache_ok (DeleteAllDirtyPages st)" by (rule DeleteAllDirtyPages_cache_ok[OF assms(1)])
  have 6: "\<forall>my_size st'. ReinitialisePageCacheIfNeeded E st my_size = Inr st' \<longrightarrow> cache_ok st'"
    using ReinitialisePageCacheIfNeeded_cache_ok[OF assms(1)] by blast
  from paintEvent_ok[OF assms, of dpr]
  obtain st' where p: "paintEvent E st dpr y_start visible_height shuffle = Inr st'"
    "cache_ok st'"
    "\<forall>p \<in> set (page_indices_to_draw
                 [y_start div (num_rows_per_canvas_page st * snd (thumbnail_span_dimensions E))
                  .. (y_start + visible_height)
                       div (num_rows_per_canvas_page st * snd (thumbnail_span_dimensions E))]).
                map_of (clean_canvas_pages st') p \<noteq> None"
    by blast
  have 7: "\<exists>st'. paintEvent E st dpr y_start visible_height shuffle = Inr st' \<and> cache_ok st'
          \<and> set (map snd (clean_canvas_pages st')) \<inter> set (dirty_canvas_pages st') = {}
          \<and> (\<forall>p \<in> set (page_indices_to_draw
                 [y_start div (num_rows_per_canvas_page st * snd (thumbnail_span_dimensions E))
                  .. (y_start + visible_height)
                       div (num_rows_per_canvas_page st * snd (thumbnail_span_dimensions E))]).
                map_of (clean_canvas_pages st') p \<noteq> None)"
    using p cache_ok_disjoint[OF p(2)] by blast
  from 1 2 3 4 5 6 7 show ?thesis by (intro conjI)
qed


theorem page_cache_pools_witness:
  "\<exists>st'. paintEvent example_env example_panel 1 1330 400 rev = Inr st'
     \<and> cache_ok st'
     \<and> clean_canvas_pages st' = [(9, 2), (10, 0), (11, 1), (12, 3), (13, 4), (14, 5)]
     \<and> dirty_canvas_pages st' = []
     \<and> set (map snd (clean_canvas_pages st')) \<inter> set (dirty_canvas_pages st') = {}
     \<and> map_of (clean_canvas_pages st') 10 \<noteq> None"
proof -
  have ok: "cache_ok example_panel" by (simp add: cache_ok_def example_panel_def)
  have sp: "0 < snd (thumbnail_span_dimensions example_env)" by (simp add: example_env_def)
  have sh: "\<forall>xs::int list. mset (rev xs) = mset xs" by simp
  have ph: "num_rows_per_canvas_page example_panel * snd (thumbnail_span_dimensions example_env)
      = 133"
    by (simp add: example_panel_def example_env_def)
  from page_cache_pools[OF ok _ _ sp sh, of 1330 400 1]
  obtain st' where p: "paintEvent example_env example_panel 1 1330 400 rev = Inr st'"
    "cache_ok st'"
    "set (map snd (clean_canvas_pages st')) \<inter> set (dirty_canvas_pages st') = {}"
    "\<forall>p \<in> set (page_indices_to_draw [1330 div 133 .. (1330 + 400) div 133]).
        map_of (clean_canvas_pages st') p \<noteq> None"
    unfolding ph by auto
  have draw: "page_indices_to_draw [10, 11, 12, 13] = [9, 10, 11, 12, 13, 14]"
    by (simp add: page_indices_to_draw_def)
  have "(10::int) \<in> set (page_indices_to_draw [1330 div 133 .. (1330 + 400) div 133])"
    by (simp add: draw)
  with p(4) have ten: "map_of (clean_canvas_pages st') 10 \<noteq> None" by blast
  have ev: "paintEvent example_env example_panel 1 1330 400 rev =
     Inr (example_panel\<lparr>clean_canvas_pages :=
              [(9, 2), (10, 0), (11, 1), (12, 3), (13, 4), (14, 5)],
            dirty_canvas_pages := [], next_canvas_page := 6\<rparr>)"
    by (simp add: paintEvent_def CalculateVisiblePageIndices_def draw DirtyPage_def
        GetThumbnailsFromPageIndex_def DrawCanvasPage_def CreateNewDirtyPage_def
        py_getitem_def Let_def example_panel_def example_env_def upto_rec1)
  with p(1) have "st' = example_panel\<lparr>clean_canvas_pages :=
              [(9, 2), (10, 0), (11, 1), (12, 3), (13, 4), (14, 5)],
            dirty_canvas_pages := [], next_canvas_page := 6\<rparr>"
    by simp
  then have c: "clean_canvas_pages st' = [(9, 2), (10, 0), (11, 1), (12, 3), (13, 4), (14, 5)]"
    "dirty_canvas_pages st' = []"
    by simp_all
  from p(1,2,3) ten c show ?thesis by (intro exI[of _ st']) simp
qed

subsection \<open>Selection helpers\<close>

lemma index_from_in:
  "m \<in> set xs \<Longrightarrow>
   \<exists>i. index_from n xs m = Inr (n + i) \<and> i < length xs \<and> xs ! i = m
       \<and> (\<forall>j < i. xs ! j \<noteq> m)"
proof (induction xs arbitrary: n)
  case Nil
  then show ?case by simp
next
  case (Cons x xs)
  show ?case
  proof (cases "x = m")
    case True
    then show ?thesis by (intro exI[of _ 0]) simp
  next
    case False
    with Cons.prems have "m \<in> set xs" by simp
    from Cons.IH[OF this, of "Suc n"]
    obtain i where i: "index_from (Suc n) xs m = Inr (Suc n + i)" "i < length xs" "xs ! i = m"
      "\<forall>j < i. xs ! j \<noteq> m"
      by blast
    have "\<forall>j < Suc i. (x # xs) ! j \<noteq> m"
      using i(4) False by (auto simp: nth_Cons split: nat.splits)
    with i False show ?thesis by (intro exI[of _ "Suc i"]) simp
  qed
qed

lemma index_of_in:
  assumes "m \<in> set xs"
  shows "\<exists>i. index_of xs m = Inr i \<and> i < length xs \<and> xs ! i = m \<and> (\<forall>j < i. xs ! j \<noteq> m)"
  using index_from_in[OF assms, of 0] by (simp add: index_of_def)

lemma DeselectSelect_fields:
  "selected_media (DeselectSelect st D S) = (selected_media st - D) \<union> S"
  "selected_flag (DeselectSelect st D S) =
     (\<lambda>m. if m \<in> S then True else if m \<in> D then False else selected_flag st m)"
  "sorted_media (DeselectSelect st D S) = sorted_media st"
  "focused_media (DeselectSelect st D S) = focused_media st"
  "last_hit_media (DeselectSelect st D S) = last_hit_media st"
  "next_best_media_if_focuses_removed (DeselectSelect st D S) =
     next_best_media_if_focuses_removed st"
  "shift_select_started_with_this_media (DeselectSelect st D S) =
     shift_select_started_with_this_media st"
  "media_added_in_current_shift_select (DeselectSelect st D S) =
     media_added_in_current_shift_select st"
  by (auto simp: DeselectSelect_def Let_def fun_eq_iff)

lemma DeselectSelect_selection_ok:
  assumes "selection_ok st" and "S \<subseteq> set (sorted_media st)"
  shows "selection_ok (DeselectSelect st D S)"
  using assms by (auto simp: selection_ok_def DeselectSelect_fields)

lemma SetFocusedMedia_Some:
  "SetFocusedMedia st (Some m) =
     Inr (st\<lparr>next_best_media_if_focuses_removed := None, focused_media := Some m,
             last_hit_media := Some m\<rparr>)"
  by (simp add: SetFocusedMedia_def)

lemma SetFocusedMedia_None_unfocused:
  "focused_media st = None \<Longrightarrow>
   SetFocusedMedia st None =
     Inr (st\<lparr>next_best_media_if_focuses_removed := None, focused_media := None,
             last_hit_media := None\<rparr>)"
  by (simp add: SetFocusedMedia_def)

lemma SetFocusedMedia_None_focused:
  assumes "focused_media st = Some f" and "index_of (sorted_media st) f = Inr i"
  shows "SetFocusedMedia st None =
     Inr (st\<lparr>next_best_media_if_focuses_removed :=
               next_best_walk (sorted_media st) (selected_media st) f i,
             focused_media := None, last_hit_media := None\<rparr>)"
  using assms by (simp add: SetFocusedMedia_def)

lemma SetFocusedMedia_frame:
  assumes "SetFocusedMedia st media = Inr st'"
  shows "sorted_media st' = sorted_media st \<and> selected_media st' = selected_media st
     \<and> selected_flag st' = selected_flag st \<and> focused_media st' = media
     \<and> shift_select_started_with_this_media st' = shift_select_started_with_this_media st
     \<and> media_added_in_current_shift_select st' = media_added_in_current_shift_select st"
  using assms
  by (auto simp: SetFocusedMedia_def split: option.splits sum.splits)

lemma SetFocusedMedia_returns:
  assumes "case focused_media st of None \<Rightarrow> True | Some f \<Rightarrow> f \<in> set (sorted_media st)"
  shows "\<exists>st'. SetFocusedMedia st media = Inr st'"
proof (cases media)
  case (Some m)
  then show ?thesis by (simp add: SetFocusedMedia_Some)
next
  case None
  show ?thesis
  proof (cases "focused_media st")
    case n: None
    then show ?thesis using None by (simp add: SetFocusedMedia_None_unfocused)
  next
    case (Some f)
    with assms have "f \<in> set (sorted_media st)" by simp
    from index_of_in[OF this] obtain i where "index_of (sorted_media st) f = Inr i" by blast
    from SetFocusedMedia_None_focused[OF Some this] None show ?thesis by simp
  qed
qed

lemma SetFocusedMedia_panel_ok:
  assumes "panel_ok st" and "case media of None \<Rightarrow> True | Some m \<Rightarrow> m \<in> set (sorted_media st)"
  shows "\<exists>st'. SetFocusedMedia st media = Inr st' \<and> panel_ok st'"
proof -
  have "case focused_media st of None \<Rightarrow> True | Some f \<Rightarrow> f \<in> set (sorted_media st)"
    using assms(1) by (simp add: panel_ok_def)
  from SetFocusedMedia_returns[OF this, of media]
  obtain st' where r: "SetFocusedMedia st media = Inr st'" by blast
  from SetFocusedMedia_frame[OF r] assms have "panel_ok st'"
    by (auto simp: panel_ok_def selection_ok_def split: option.splits)
  with r show ?thesis by blast
qed

lemma EndShiftSelect_panel_ok: "panel_ok st \<Longrightarrow> panel_ok (EndShiftSelect st)"
  by (auto simp: panel_ok_def selection_ok_def EndShiftSelect_def split: option.splits)

lemma StartShiftSelect_panel_ok:
  "panel_ok st \<Longrightarrow> m \<in> set (sorted_media st) \<Longrightarrow> panel_ok (StartShiftSelect st m)"
  by (auto simp: panel_ok_def selection_ok_def StartShiftSelect_def split: option.splits)

lemma DeselectSelect_panel_ok:
  assumes "panel_ok st" and "S \<subseteq> set (sorted_media st)"
  shows "panel_ok (DeselectSelect st D S)"
  using assms DeselectSelect_selection_ok[of st S D]
  by (auto simp: panel_ok_def DeselectSelect_fields split: option.splits)

lemma py_slice_set:
  assumes "b < length xs"
  shows "set (py_slice xs a (b + 1)) = {xs ! k | k. a \<le> k \<and> k \<le> b}"
proof -
  have "drop a (take (b + 1) (map (nth xs) [0..<length xs])) = map (nth xs) [a..<b + 1]"
    using assms by (simp add: take_map drop_map)
  then have "py_slice xs a (b + 1) = map (nth xs) [a..<b + 1]"
    unfolding py_slice_def by (simp only: map_nth)
  then show ?thesis by (auto simp: less_Suc_eq_le)
qed

subsection \<open>Fallback focus\<close>

lemma next_best_walk_char:
  "i < length xs \<Longrightarrow>
   (next_best_walk xs sel (xs ! i) i = None \<longleftrightarrow> (\<forall>j \<le> i. xs ! j \<in> sel))
   \<and> (\<forall>m. next_best_walk xs sel (xs ! i) i = Some m \<longrightarrow>
         (\<exists>j \<le> i. m = xs ! j \<and> m \<notin> sel \<and> (\<forall>k. j < k \<and> k \<le> i \<longrightarrow> xs ! k \<in> sel)))"
proof (induction i)
  case 0
  show ?case by (subst (1 2) next_best_walk.simps) auto
next
  case (Suc i)
  then have IH: "(next_best_walk xs sel (xs ! i) i = None \<longleftrightarrow> (\<forall>j \<le> i. xs ! j \<in> sel))"
    "\<forall>m. next_best_walk xs sel (xs ! i) i = Some m \<longrightarrow>
         (\<exists>j \<le> i. m = xs ! j \<and> m \<notin> sel \<and> (\<forall>k. j < k \<and> k \<le> i \<longrightarrow> xs ! k \<in> sel))"
    by simp_all
  have step: "next_best_walk xs sel (xs ! Suc i) (Suc i) =
      (if xs ! Suc i \<in> sel then next_best_walk xs sel (xs ! i) i else Some (xs ! Suc i))"
    by (subst next_best_walk.simps) simp
  show ?case
  proof (cases "xs ! Suc i \<in> sel")
    case False
    then show ?thesis unfolding step by auto
  next
    case True
    have a: "(next_best_walk xs sel (xs ! Suc i) (Suc i) = None \<longleftrightarrow> (\<forall>j \<le> Suc i. xs ! j \<in> sel))"
      unfolding step using True IH(1) by (auto simp: le_Suc_eq)
    have b: "\<forall>m. next_best_walk xs sel (xs ! Suc i) (Suc i) = Some m \<longrightarrow>
         (\<exists>j \<le> Suc i. m = xs ! j \<and> m \<notin> sel
             \<and> (\<forall>k. j < k \<and> k \<le> Suc i \<longrightarrow> xs ! k \<in> sel))"
    proof (intro allI impI)
      fix m assume "next_best_walk xs sel (xs ! Suc i) (Suc i) = Some m"
      then have "next_best_walk xs sel (xs ! i) i = Some m" unfolding step using True by simp
      with IH(2) obtain j where j: "j \<le> i" "m = xs ! j" "m \<notin> sel"
        "\<forall>k. j < k \<and> k \<le> i \<longrightarrow> xs ! k \<in> sel"
        by blast
      have "\<forall>k. j < k \<and> k \<le> Suc i \<longrightarrow> xs ! k \<in> sel"
        using j(4) True by (auto simp: le_Suc_eq)
      with j show "\<exists>j \<le> Suc i. m = xs ! j \<and> m \<notin> sel
             \<and> (\<forall>k. j < k \<and> k \<le> Suc i \<longrightarrow> xs ! k \<in> sel)"
        by (intro exI[of _ j]) simp
    qed
    from a b show ?thesis by blast
  qed
qed

lemma DirtyPages_panel_frame:
  "DirtyPages st ks = Inr st' \<Longrightarrow>
   sorted_media st' = sorted_media st \<and> selected_media st' = selected_media st
   \<and> selected_flag st' = selected_flag st \<and> focused_media st' = focused_media st
   \<and> last_hit_media st' = last_hit_media st
   \<and> next_best_media_if_focuses_removed st' = next_best_media_if_focuses_removed st
   \<and> shift_select_started_with_this_media st' = shift_select_started_with_this_media st
   \<and> media_added_in_current_shift_select st' = media_added_in_current_shift_select st"
proof (induction ks arbitrary: st)
  case Nil
  then show ?case by simp
next
  case (Cons k ks)
  from Cons.prems obtain st1 where s: "DirtyPage st k = Inr st1" "DirtyPages st1 ks = Inr st'"
    by (auto split: sum.splits)
  from s(1) have "sorted_media st1 = sorted_media st \<and> selected_media st1 = selected_media st
   \<and> selected_flag st1 = selected_flag st \<and> focused_media st1 = focused_media st
   \<and> last_hit_media st1 = last_hit_media st
   \<and> next_best_media_if_focuses_removed st1 = next_best_media_if_focuses_removed st
   \<and> shift_select_started_with_this_media st1 = shift_select_started_with_this_media st
   \<and> media_added_in_current_shift_select st1 = media_added_in_current_shift_select st"
    by (auto simp: DirtyPage_def Let_def split: option.splits sum.splits)
  with Cons.IH[OF s(2)] show ?case by simp
qed

lemma cache_ok_panel_update:
  assumes "cache_ok st"
    and "clean_canvas_pages st' = clean_canvas_pages st"
    and "dirty_canvas_pages st' = dirty_canvas_pages st"
    and "next_canvas_page st' = next_canvas_page st"
    and "num_columns st' = num_columns st"
    and "num_rows_per_canvas_page st' = num_rows_per_canvas_page st"
  shows "cache_ok st'"
  using assms by (simp add: cache_ok_def)

text \<open>
  C5. Whenever the focus is cleared while an item of the sequence is focused, the cached
  fallback is the item at the greatest index at or before the old focus index that is not
  in the selection (every item between it and the old focus index being selected), and it
  is null exactly when every item from index 0 to the old focus index is selected. The
  removal of the focused item (on a well-formed cache, with a scroll bar whose single step
  is not zero, so that the recalculation of the virtual size does not divide by zero)
  clears the focus in this way, returns and leaves that fallback cached.
\<close>

theorem fallback_focus:
  fixes st :: media_panel_thumbnails
  assumes "focused_media st = Some f" and "f \<in> set (sorted_media st)"
  shows "\<exists>st' i. SetFocusedMedia st None = Inr st'
     \<and> index_of (sorted_media st) f = Inr i \<and> i < length (sorted_media st)
     \<and> sorted_media st ! i = f
     \<and> focused_media st' = None
     \<and> (next_best_media_if_focuses_removed st' = None \<longleftrightarrow>
          (\<forall>j \<le> i. sorted_media st ! j \<in> selected_media st))
     \<and> (\<forall>m. next_best_media_if_focuses_removed st' = Some m \<longrightarrow>
          (\<exists>j \<le> i. m = sorted_media st ! j \<and> m \<notin> selected_media st
             \<and> (\<forall>k. j < k \<and> k \<le> i \<longrightarrow> sorted_media st ! k \<in> selected_media st)))
     \<and> (cache_ok st \<and> scroll_single_step E \<noteq> 0
          \<and> (f \<in> singleton_media \<or> f \<in> collected_media) \<longrightarrow>
          (\<exists>st''. RemoveMediaDirectly E st my_size singleton_media collected_media = Inr st''
             \<and> focused_media st'' = None
             \<and> next_best_media_if_focuses_removed st'' =
                 next_best_media_if_focuses_removed st'))"
proof -
  from index_of_in[OF assms(2)]
  obtain i where i: "index_of (sorted_media st) f = Inr i" "i < length (sorted_media st)"
    "sorted_media st ! i = f"
    by blast
  define st' where "st' = st\<lparr>next_best_media_if_focuses_removed :=
               next_best_walk (sorted_media st) (selected_media st) f i,
             focused_media := None, last_hit_media := None\<rparr>"
  have r: "SetFocusedMedia st None = Inr st'"
    using SetFocusedMedia_None_focused[OF assms(1) i(1)] by (simp add: st'_def)
  have nb: "next_best_media_if_focuses_removed st' =
      next_best_walk (sorted_media st) (selected_media st) (sorted_media st ! i) i"
    by (simp add: st'_def i(3))
  note ch = next_best_walk_char[OF i(2), of "selected_media st", folded nb]
  have rem: "cache_ok st \<and> scroll_single_step E \<noteq> 0
          \<and> (f \<in> singleton_media \<or> f \<in> collected_media) \<longrightarrow>
          (\<exists>st''. RemoveMediaDirectly E st my_size singleton_media collected_media = Inr st''
             \<and> focused_media st'' = None
             \<and> next_best_media_if_focuses_removed st'' =
                 next_best_media_if_focuses_removed st')"
  proof
    assume A: "cache_ok st \<and> scroll_single_step E \<noteq> 0
          \<and> (f \<in> singleton_media \<or> f \<in> collected_media)"
    then have cok: "cache_ok st" and step: "scroll_single_step E \<noteq> 0"
      and fin: "f \<in> singleton_media \<or> f \<in> collected_media"
      by simp_all
    define st1 where
      "st1 = EndShiftSelect (MediaList_RemoveMediaDirectly st' singleton_media collected_media)"
    have ok1: "cache_ok st1"
      by (rule cache_ok_panel_update[OF cok])
         (simp_all add: st1_def EndShiftSelect_def MediaList_RemoveMediaDirectly_def st'_def)
    then have nc: "num_columns st1 \<noteq> 0" by (auto simp: cache_ok_def)
    from RecalculateVirtualSize_returns[OF step nc, of my_size]
    obtain v where rv: "RecalculateVirtualSize E st1 my_size = Inr (st1\<lparr>widget_size := v\<rparr>)"
      by blast
    define st2 where "st2 = st1\<lparr>widget_size := v\<rparr>"
    have ok2: "cache_ok st2"
      by (rule cache_ok_panel_update[OF ok1]) (simp_all add: st2_def)
    from DirtyAllPages_cache_ok[OF ok2]
    obtain st3 where d: "DirtyAllPages st2 = Inr st3" by blast
    from DirtyPages_panel_frame[OF d[unfolded DirtyAllPages_def]]
    have f3: "focused_media st3 = focused_media st2"
      "next_best_media_if_focuses_removed st3 = next_best_media_if_focuses_removed st2"
      by simp_all
    have f2: "focused_media st2 = None"
      "next_best_media_if_focuses_removed st2 = next_best_media_if_focuses_removed st'"
      by (simp_all add: st2_def st1_def EndShiftSelect_def MediaList_RemoveMediaDirectly_def
          st'_def)
    have "RemoveMediaDirectly E st my_size singleton_media collected_media = Inr st3"
      using fin assms(1) r rv d
      by (auto simp: RemoveMediaDirectly_def st1_def[symmetric] st2_def[symmetric])
    with f2 f3
    show "\<exists>st''. RemoveMediaDirectly E st my_size singleton_media collected_media = Inr st''
             \<and> focused_media st'' = None
             \<and> next_best_media_if_focuses_removed st'' =
                 next_best_media_if_focuses_removed st'"
      by simp
  qed
  have foc: "focused_media st' = None" by (simp add: st'_def)
  show ?thesis
    apply (intro exI[of _ st'] exI[of _ i] conjI)
    using r i foc ch rem by blast+
qed


theorem fallback_focus_witness:
  "(\<exists>st'. SetFocusedMedia selected_panel None = Inr st'
      \<and> focused_media st' = None
      \<and> next_best_media_if_focuses_removed st' = None
      \<and> (\<exists>st''. RemoveMediaDirectly example_env selected_panel (500, 400) {11} {} = Inr st''
            \<and> focused_media st'' = None
            \<and> next_best_media_if_focuses_removed st'' = None))
   \<and> (\<exists>st'. SetFocusedMedia shift_panel None = Inr st'
      \<and> focused_media st' = None
      \<and> next_best_media_if_focuses_removed st' = Some 11)"
proof -
  have f1: "focused_media selected_panel = Some 11" "11 \<in> set (sorted_media selected_panel)"
    by (simp_all add: selected_panel_def example_panel_def)
  have ok1: "cache_ok selected_panel"
    by (simp add: cache_ok_def selected_panel_def example_panel_def)
  have step1: "scroll_single_step example_env \<noteq> 0" by (simp add: example_env_def)
  from fallback_focus[OF f1, where E = example_env and my_size = "(500, 400)"
      and singleton_media = "{11}" and collected_media = "{}"]
  obtain st' i where a: "SetFocusedMedia selected_panel None = Inr st'"
    "focused_media st' = None"
    "cache_ok selected_panel \<and> scroll_single_step example_env \<noteq> 0
       \<and> (11 \<in> {11::nat} \<or> 11 \<in> ({}::nat set)) \<longrightarrow>
          (\<exists>st''. RemoveMediaDirectly example_env selected_panel (500, 400) {11} {} = Inr st''
             \<and> focused_media st'' = None
             \<and> next_best_media_if_focuses_removed st'' =
                 next_best_media_if_focuses_removed st')"
    by blast
  have n1: "next_best_media_if_focuses_removed st' = None"
    using a(1)
    by (auto simp: SetFocusedMedia_def selected_panel_def example_panel_def index_of_def)
  from a(3) ok1 step1
  obtain st'' where b: "RemoveMediaDirectly example_env selected_panel (500, 400) {11} {} = Inr st''"
    "focused_media st'' = None"
    "next_best_media_if_focuses_removed st'' = next_best_media_if_focuses_removed st'"
    by auto
  have f2: "focused_media shift_panel = Some 12" "12 \<in> set (sorted_media shift_panel)"
    by (simp_all add: shift_panel_def example_panel_def)
  from fallback_focus[OF f2, where singleton_media = "{}" and collected_media = "{}"]
  obtain s' j where c: "SetFocusedMedia shift_panel None = Inr s'" "focused_media s' = None"
    by blast
  have n2: "next_best_media_if_focuses_removed s' = Some 11"
    using c(1)
    by (auto simp: SetFocusedMedia_def shift_panel_def example_panel_def index_of_def)
  show ?thesis using a(1,2) n1 b c n2 by simp
qed

subsection \<open>Plain click\<close>

text \<open>
  C3 as stated fails for an item that is already selected: with 10 and 11 selected, a
  plain click on 10 leaves both selected (only the selection change is published).
\<close>

theorem plain_click_selected_counterexample:
  "selected_flag selected_panel 10
   \<and> (\<exists>st'. HitMedia example_env selected_panel (Some 10) False False = Inr st'
         \<and> selected_media st' = {10, 11} \<and> selected_media st' \<noteq> {10})"
  by (auto simp: HitMedia_def HitMedia_some_def SetFocusedMedia_Some StartShiftSelect_def
      selected_panel_def example_panel_def)

text \<open>
  C3, amended. A plain click (no ctrl, no shift) on an item always returns, sets the focus
  to the item and starts a new shift anchor at it with an empty working set. When the item
  was not selected beforehand, the selection set becomes exactly the singleton of the
  item, its flag is set and the flag of every item that was in the selection set is
  cleared; when the item was already selected, the selection set and the flags are left
  as they were.
\<close>

theorem plain_click:
  "\<exists>st'. HitMedia E st (Some m) False False = Inr st'
     \<and> focused_media st' = Some m
     \<and> last_hit_media st' = Some m
     \<and> shift_select_started_with_this_media st' = Some m
     \<and> media_added_in_current_shift_select st' = {}
     \<and> sorted_media st' = sorted_media st
     \<and> (\<not> selected_flag st m \<longrightarrow>
          selected_media st' = {m}
          \<and> selected_flag st' m
          \<and> (\<forall>x \<in> selected_media st. x \<noteq> m \<longrightarrow> \<not> selected_flag st' x)
          \<and> (\<forall>x. x \<notin> selected_media st \<and> x \<noteq> m \<longrightarrow> selected_flag st' x = selected_flag st x))
     \<and> (selected_flag st m \<longrightarrow>
          selected_media st' = selected_media st \<and> selected_flag st' = selected_flag st)"
  by (auto simp: HitMedia_def HitMedia_some_def SetFocusedMedia_Some StartShiftSelect_def
      DeselectSelect_fields)

theorem plain_click_witness:
  "(\<exists>st'. HitMedia example_env selected_panel (Some 12) False False = Inr st'
      \<and> \<not> selected_flag selected_panel 12
      \<and> selected_media st' = {12} \<and> selected_flag st' 12 \<and> \<not> selected_flag st' 10
      \<and> focused_media st' = Some 12
      \<and> shift_select_started_with_this_media st' = Some 12)
   \<and> (\<exists>st'. HitMedia example_env selected_panel (Some 10) False False = Inr st'
      \<and> selected_flag selected_panel 10
      \<and> selected_media st' = {10, 11}
      \<and> focused_media st' = Some 10
      \<and> shift_select_started_with_this_media st' = Some 10)"
proof -
  have n: "\<not> selected_flag selected_panel 12" "selected_flag selected_panel 10"
    "selected_media selected_panel = {10, 11}"
    by (simp_all add: selected_panel_def example_panel_def)
  from plain_click[of example_env selected_panel 12]
  obtain s1 where a: "HitMedia example_env selected_panel (Some 12) False False = Inr s1"
    "focused_media s1 = Some 12" "shift_select_started_with_this_media s1 = Some 12"
    "\<not> selected_flag selected_panel 12 \<longrightarrow>
          selected_media s1 = {12} \<and> selected_flag s1 12
          \<and> (\<forall>x \<in> selected_media selected_panel. x \<noteq> 12 \<longrightarrow> \<not> selected_flag s1 x)"
    by blast
  from a(4) n have a': "selected_media s1 = {12}" "selected_flag s1 12" "\<not> selected_flag s1 10"
    by auto
  from plain_click[of example_env selected_panel 10]
  obtain s2 where b: "HitMedia example_env selected_panel (Some 10) False False = Inr s2"
    "focused_media s2 = Some 10" "shift_select_started_with_this_media s2 = Some 10"
    "selected_flag selected_panel 10 \<longrightarrow>
          selected_media s2 = selected_media selected_panel
          \<and> selected_flag s2 = selected_flag selected_panel"
    by blast
  from b(4) n have b': "selected_media s2 = {10, 11}" by simp
  show ?thesis using a(1,2,3) a' b(1,2,3) b' n by simp
qed

subsection \<open>Shift click\<close>

lemma shift_range:
  assumes "i < length xs" and "j < length xs"
  shows "(if i < j then set (py_slice xs i (j + 1)) else set (py_slice xs j (i + 1)))
         = {xs ! k | k. min i j \<le> k \<and> k \<le> max i j}"
  unfolding py_slice_set[OF assms(1)] py_slice_set[OF assms(2)]
  by (auto simp: min_def max_def)

lemma shift_click_result:
  assumes "shift_select_started_with_this_media st = Some a"
    and "index_of (sorted_media st) a = Inr i" and "index_of (sorted_media st) m = Inr j"
    and "R = (if i < j then set (py_slice (sorted_media st) i (j + 1))
              else set (py_slice (sorted_media st) j (i + 1)))"
    and "D = {x \<in> media_added_in_current_shift_select st. x \<notin> R}"
    and "S = {x \<in> R. \<not> selected_flag st x}"
  shows "\<exists>st'. HitMedia E st (Some m) ctrl True = Inr st'
     \<and> selected_media st' = (selected_media st - D) \<union> S
     \<and> selected_flag st' =
         (\<lambda>x. if x \<in> S then True else if x \<in> D then False else selected_flag st x)
     \<and> media_added_in_current_shift_select st' =
         (media_added_in_current_shift_select st - D) \<union> S
     \<and> shift_select_started_with_this_media st' = Some a
     \<and> sorted_media st' = sorted_media st
     \<and> (focused_media st' = Some m \<or> focused_media st' = focused_media st)"
proof -
  define st2 where "st2 = DeselectSelect
      (st\<lparr>media_added_in_current_shift_select :=
            (media_added_in_current_shift_select st - D) \<union> S\<rparr>) D S"
  define focus_it where "focus_it =
     (if focus_preview_on_shift_click E
      then (if focus_preview_on_shift_click_only_static E then duration_ms E m = None else True)
      else False)"
  have run: "HitMedia E st (Some m) ctrl True =
      (if focus_it then SetFocusedMedia st2 (Some m) else Inr (st2\<lparr>last_hit_media := Some m\<rparr>))"
    unfolding HitMedia_def HitMedia_some_def
    using assms(1,2,3)
    by (simp add: Let_def assms(4)[symmetric] assms(5)[symmetric] assms(6)[symmetric]
        st2_def focus_it_def)
  have f2: "selected_media st2 = (selected_media st - D) \<union> S"
    "selected_flag st2 =
         (\<lambda>x. if x \<in> S then True else if x \<in> D then False else selected_flag st x)"
    "media_added_in_current_shift_select st2 =
         (media_added_in_current_shift_select st - D) \<union> S"
    "shift_select_started_with_this_media st2 = Some a"
    "sorted_media st2 = sorted_media st"
    "focused_media st2 = focused_media st"
    by (simp_all add: st2_def DeselectSelect_fields assms(1))
  show ?thesis
  proof (cases focus_it)
    case True
    then show ?thesis using run f2 by (simp add: SetFocusedMedia_Some)
  next
    case False
    then show ?thesis using run f2 by simp
  qed
qed

text \<open>
  C4. For every shift-click on an item of the sequence while a shift anchor of the
  sequence is present (on a panel whose selection set mirrors the flags): every item at an
  index between the anchor's and the clicked item's, both included, is selected afterwards;
  every item of the gesture's working set outside that range is deselected; an item
  outside the working set that was selected stays selected; the working set becomes its
  part inside the range together with the items of the range that were not selected; and
  the anchor stays.
\<close>

theorem shift_click_range:
  assumes "shift_select_started_with_this_media st = Some a"
    and "a \<in> set (sorted_media st)" and "m \<in> set (sorted_media st)"
    and "selection_ok st"
  shows "\<exists>st' i j. HitMedia E st (Some m) ctrl True = Inr st'
     \<and> index_of (sorted_media st) a = Inr i \<and> index_of (sorted_media st) m = Inr j
     \<and> sorted_media st ! i = a \<and> sorted_media st ! j = m
     \<and> (\<forall>k. min i j \<le> k \<and> k \<le> max i j \<longrightarrow>
           selected_flag st' (sorted_media st ! k) \<and> sorted_media st ! k \<in> selected_media st')
     \<and> (\<forall>x \<in> media_added_in_current_shift_select st.
           (\<forall>k. min i j \<le> k \<and> k \<le> max i j \<longrightarrow> x \<noteq> sorted_media st ! k) \<longrightarrow>
           \<not> selected_flag st' x \<and> x \<notin> selected_media st')
     \<and> (\<forall>x. x \<notin> media_added_in_current_shift_select st \<longrightarrow>
           (selected_flag st x \<longrightarrow> selected_flag st' x)
           \<and> (x \<in> selected_media st \<longrightarrow> x \<in> selected_media st'))
     \<and> media_added_in_current_shift_select st' =
          {x \<in> media_added_in_current_shift_select st.
             \<exists>k. min i j \<le> k \<and> k \<le> max i j \<and> x = sorted_media st ! k}
          \<union> {x. (\<exists>k. min i j \<le> k \<and> k \<le> max i j \<and> x = sorted_media st ! k)
                 \<and> \<not> selected_flag st x}
     \<and> shift_select_started_with_this_media st' = Some a
     \<and> sorted_media st' = sorted_media st"
proof -
  from index_of_in[OF assms(2)]
  obtain i where i: "index_of (sorted_media st) a = Inr i" "i < length (sorted_media st)"
    "sorted_media st ! i = a" by blast
  from index_of_in[OF assms(3)]
  obtain j where j: "index_of (sorted_media st) m = Inr j" "j < length (sorted_media st)"
    "sorted_media st ! j = m" by blast
  define R where "R = (if i < j then set (py_slice (sorted_media st) i (j + 1))
              else set (py_slice (sorted_media st) j (i + 1)))"
  define D where "D = {x \<in> media_added_in_current_shift_select st. x \<notin> R}"
  define S where "S = {x \<in> R. \<not> selected_flag st x}"
  have R: "R = {sorted_media st ! k | k. min i j \<le> k \<and> k \<le> max i j}"
    unfolding R_def by (rule shift_range[OF i(2) j(2)])
  have Rsub: "R \<subseteq> set (sorted_media st)"
    unfolding R using i(2) j(2) by (auto simp: max_def split: if_splits)
  from shift_click_result[OF assms(1) i(1) j(1) R_def D_def S_def, of E ctrl]
  obtain st' where r: "HitMedia E st (Some m) ctrl True = Inr st'"
    "selected_media st' = (selected_media st - D) \<union> S"
    "selected_flag st' =
         (\<lambda>x. if x \<in> S then True else if x \<in> D then False else selected_flag st x)"
    "media_added_in_current_shift_select st' =
         (media_added_in_current_shift_select st - D) \<union> S"
    "shift_select_started_with_this_media st' = Some a"
    "sorted_media st' = sorted_media st"
    by blast
  have sel: "\<And>x. x \<in> R \<Longrightarrow> selected_flag st x \<Longrightarrow> x \<in> selected_media st"
    using assms(4) Rsub by (auto simp: selection_ok_def)
  have c1: "\<forall>k. min i j \<le> k \<and> k \<le> max i j \<longrightarrow>
           selected_flag st' (sorted_media st ! k) \<and> sorted_media st ! k \<in> selected_media st'"
  proof (intro allI impI)
    fix k assume k: "min i j \<le> k \<and> k \<le> max i j"
    then have inR: "sorted_media st ! k \<in> R" unfolding R by blast
    then have nD: "sorted_media st ! k \<notin> D" by (simp add: D_def)
    show "selected_flag st' (sorted_media st ! k) \<and> sorted_media st ! k \<in> selected_media st'"
    proof (cases "selected_flag st (sorted_media st ! k)")
      case True
      with sel[OF inR] nD show ?thesis by (simp add: r(2,3))
    next
      case False
      with inR have "sorted_media st ! k \<in> S" by (simp add: S_def)
      then show ?thesis by (simp add: r(2,3))
    qed
  qed
  have c2: "\<forall>x \<in> media_added_in_current_shift_select st.
           (\<forall>k. min i j \<le> k \<and> k \<le> max i j \<longrightarrow> x \<noteq> sorted_media st ! k) \<longrightarrow>
           \<not> selected_flag st' x \<and> x \<notin> selected_media st'"
  proof (intro ballI impI)
    fix x assume x: "x \<in> media_added_in_current_shift_select st"
      "\<forall>k. min i j \<le> k \<and> k \<le> max i j \<longrightarrow> x \<noteq> sorted_media st ! k"
    then have "x \<notin> R" unfolding R by blast
    with x(1) have "x \<in> D" "x \<notin> S" by (simp_all add: D_def S_def)
    then show "\<not> selected_flag st' x \<and> x \<notin> selected_media st'" by (simp add: r(2,3))
  qed
  have c3: "\<forall>x. x \<notin> media_added_in_current_shift_select st \<longrightarrow>
           (selected_flag st x \<longrightarrow> selected_flag st' x)
           \<and> (x \<in> selected_media st \<longrightarrow> x \<in> selected_media st')"
    by (simp add: r(2,3) D_def)
  have c4: "media_added_in_current_shift_select st' =
          {x \<in> media_added_in_current_shift_select st.
             \<exists>k. min i j \<le> k \<and> k \<le> max i j \<and> x = sorted_media st ! k}
          \<union> {x. (\<exists>k. min i j \<le> k \<and> k \<le> max i j \<and> x = sorted_media st ! k)
                 \<and> \<not> selected_flag st x}"
    unfolding r(4) D_def S_def R by blast
  show ?thesis
    apply (rule exI[of _ st'], rule exI[of _ i], rule exI[of _ j])
    apply (intro conjI)
    using r(1,5,6) i(1,3) j(1,3) c1 c2 c3 c4 by blast+
qed

theorem shift_click_range_witness:
  "\<exists>st'. HitMedia example_env shift_panel (Some 13) False True = Inr st'
     \<and> selected_flag st' 12 \<and> selected_flag st' 13 \<and> 13 \<in> selected_media st'
     \<and> \<not> selected_flag st' 14 \<and> 14 \<notin> selected_media st'
     \<and> selected_flag st' 10 \<and> 10 \<in> selected_media st'
     \<and> 13 \<in> media_added_in_current_shift_select st'
     \<and> 14 \<notin> media_added_in_current_shift_select st'
     \<and> shift_select_started_with_this_media st' = Some 12"
proof -
  have s: "sorted_media shift_panel = [10, 11, 12, 13, 14, 15, 16]"
    "media_added_in_current_shift_select shift_panel = {13, 14}"
    "selected_media shift_panel = {10, 12, 13, 14}"
    "selected_flag shift_panel = (\<lambda>m. m = 10 \<or> m = 12 \<or> m = 13 \<or> m = 14)"
    "shift_select_started_with_this_media shift_panel = Some 12"
    by (simp_all add: shift_panel_def example_panel_def)
  have ok: "selection_ok shift_panel" by (auto simp: selection_ok_def s)
  have a: "12 \<in> set (sorted_media shift_panel)" "13 \<in> set (sorted_media shift_panel)"
    by (simp_all add: s)
  from shift_click_range[OF s(5) a ok, of example_env False]
  show ?thesis
  proof (elim exE conjE)
    fix st' i j
    assume r: "HitMedia example_env shift_panel (Some 13) False True = Inr st'"
    and ia: "index_of (sorted_media shift_panel) 12 = Inr i"
    and jm: "index_of (sorted_media shift_panel) 13 = Inr j"
    and c1: "\<forall>k. min i j \<le> k \<and> k \<le> max i j \<longrightarrow>
           selected_flag st' (sorted_media shift_panel ! k)
           \<and> sorted_media shift_panel ! k \<in> selected_media st'"
    and c2: "\<forall>x \<in> media_added_in_current_shift_select shift_panel.
           (\<forall>k. min i j \<le> k \<and> k \<le> max i j \<longrightarrow> x \<noteq> sorted_media shift_panel ! k) \<longrightarrow>
           \<not> selected_flag st' x \<and> x \<notin> selected_media st'"
    and c3: "\<forall>x. x \<notin> media_added_in_current_shift_select shift_panel \<longrightarrow>
           (selected_flag shift_panel x \<longrightarrow> selected_flag st' x)
           \<and> (x \<in> selected_media shift_panel \<longrightarrow> x \<in> selected_media st')"
    and c4: "media_added_in_current_shift_select st' =
          {x \<in> media_added_in_current_shift_select shift_panel.
             \<exists>k. min i j \<le> k \<and> k \<le> max i j \<and> x = sorted_media shift_panel ! k}
          \<union> {x. (\<exists>k. min i j \<le> k \<and> k \<le> max i j \<and> x = sorted_media shift_panel ! k)
                 \<and> \<not> selected_flag shift_panel x}"
    and c5: "shift_select_started_with_this_media st' = Some 12"
  have ij: "i = 2" "j = 3" using ia jm by (simp_all add: s index_of_def)
  have nth: "sorted_media shift_panel ! 2 = 12" "sorted_media shift_panel ! 3 = 13"
    by (simp_all add: s)
  have rng: "\<And>k::nat. 2 \<le> k \<and> k \<le> 3 \<longleftrightarrow> k = 2 \<or> k = 3" by auto
  have p12: "selected_flag st' 12" using c1[rule_format, of 2] ij nth by simp
  have p13: "selected_flag st' 13 \<and> 13 \<in> selected_media st'"
    using c1[rule_format, of 3] ij nth by simp
  have out: "\<forall>k. min i j \<le> k \<and> k \<le> max i j \<longrightarrow> 14 \<noteq> sorted_media shift_panel ! k"
    unfolding ij by (auto simp: rng nth)
  have in14: "14 \<in> media_added_in_current_shift_select shift_panel" by (simp add: s)
  from c2[rule_format, OF in14] out
  have p14: "\<not> selected_flag st' 14 \<and> 14 \<notin> selected_media st'" by blast
  have p10: "selected_flag st' 10 \<and> 10 \<in> selected_media st'"
    using c3[rule_format, of 10] by (simp add: s)
  have in13: "13 \<in> media_added_in_current_shift_select shift_panel" by (simp add: s)
  have ex13: "\<exists>k. min i j \<le> k \<and> k \<le> max i j \<and> 13 = sorted_media shift_panel ! k"
    unfolding ij using nth(2) by (intro exI[of _ 3]) simp
  have a13: "13 \<in> media_added_in_current_shift_select st'"
    unfolding c4 using in13 ex13 by blast
  have f14: "selected_flag shift_panel 14" by (simp add: s)
  have a14: "14 \<notin> media_added_in_current_shift_select st'"
    unfolding c4 using out f14 by blast
  show ?thesis
    apply (rule exI[of _ st'])
    using r p12 p13 p14 p10 a13 a14 c5 by simp
  qed
qed

subsection \<open>The selection invariant\<close>

lemma panel_ok_last_hit:
  "panel_ok st \<Longrightarrow> panel_ok (st\<lparr>last_hit_media := x\<rparr>)"
  by (auto simp: panel_ok_def selection_ok_def split: option.splits)

lemma SetFocusedMedia_panel_ok_sorted:
  assumes "panel_ok st" and "case media of None \<Rightarrow> True | Some m \<Rightarrow> m \<in> set (sorted_media st)"
  shows "\<exists>st'. SetFocusedMedia st media = Inr st' \<and> panel_ok st'
     \<and> sorted_media st' = sorted_media st"
proof -
  from SetFocusedMedia_panel_ok[OF assms]
  obtain st' where r: "SetFocusedMedia st media = Inr st'" "panel_ok st'" by blast
  from SetFocusedMedia_frame[OF r(1)] r show ?thesis by blast
qed

lemma ctrl_click_panel_ok:
  assumes "panel_ok st" and "m \<in> set (sorted_media st)" and "ctrl" and "\<not> shift"
  shows "\<exists>st'. HitMedia_some E st m ctrl shift = Inr st' \<and> panel_ok st'
     \<and> sorted_media st' = sorted_media st"
proof (cases "selected_flag st m")
  case True
  define st1 where "st1 = DeselectSelect st {m} {}"
  have ok1: "panel_ok st1" unfolding st1_def by (rule DeselectSelect_panel_ok[OF assms(1)]) simp
  have s1: "sorted_media st1 = sorted_media st" by (simp add: st1_def DeselectSelect_fields)
  define X where "X = (if focused_media st1 = Some m then SetFocusedMedia st1 None else Inr st1)"
  from SetFocusedMedia_panel_ok_sorted[OF ok1, of None]
  obtain sf where sf: "SetFocusedMedia st1 None = Inr sf" "panel_ok sf"
    "sorted_media sf = sorted_media st1" by auto
  have "\<exists>st2. X = Inr st2 \<and> panel_ok st2 \<and> sorted_media st2 = sorted_media st"
    unfolding X_def using sf ok1 s1 by auto
  then obtain st2 where st2: "X = Inr st2" "panel_ok st2" "sorted_media st2 = sorted_media st"
    by blast
  have run: "HitMedia_some E st m ctrl shift = Inr (EndShiftSelect st2)"
    unfolding HitMedia_some_def using assms(3,4) True st2(1)
    by (simp add: Let_def st1_def[symmetric] X_def[symmetric])
  have "sorted_media (EndShiftSelect st2) = sorted_media st"
    using st2(3) by (simp add: EndShiftSelect_def)
  with run EndShiftSelect_panel_ok[OF st2(2)] show ?thesis by simp
next
  case False
  define st1 where "st1 = DeselectSelect st {} {m}"
  have ok1: "panel_ok st1" unfolding st1_def
    by (rule DeselectSelect_panel_ok[OF assms(1)]) (simp add: assms(2))
  have s1: "sorted_media st1 = sorted_media st" by (simp add: st1_def DeselectSelect_fields)
  define focus_it where "focus_it =
     (if focus_preview_on_ctrl_click E
      then (if focus_preview_on_ctrl_click_only_static E then duration_ms E m = None else True)
      else False)"
  define X where "X = (if focus_it then SetFocusedMedia st1 (Some m)
                       else Inr (st1\<lparr>last_hit_media := Some m\<rparr>))"
  have min1: "case Some m of None \<Rightarrow> True | Some m \<Rightarrow> m \<in> set (sorted_media st1)"
    using assms(2) s1 by simp
  from SetFocusedMedia_panel_ok_sorted[OF ok1 min1]
  obtain sf where sf: "SetFocusedMedia st1 (Some m) = Inr sf" "panel_ok sf"
    "sorted_media sf = sorted_media st1" by auto
  have "\<exists>st2. X = Inr st2 \<and> panel_ok st2 \<and> sorted_media st2 = sorted_media st"
    unfolding X_def using sf panel_ok_last_hit[OF ok1, of "Some m"] s1 by auto
  then obtain st2 where st2: "X = Inr st2" "panel_ok st2" "sorted_media st2 = sorted_media st"
    by blast
  have run: "HitMedia_some E st m ctrl shift = Inr (StartShiftSelect st2 m)"
    unfolding HitMedia_some_def using assms(3,4) False st2(1)
    by (simp add: Let_def st1_def[symmetric] focus_it_def[symmetric] X_def[symmetric])
  have m2: "m \<in> set (sorted_media st2)" using assms(2) st2(3) by simp
  have "sorted_media (StartShiftSelect st2 m) = sorted_media st"
    using st2(3) by (simp add: StartShiftSelect_def)
  with run StartShiftSelect_panel_ok[OF st2(2) m2] show ?thesis by simp
qed

lemma plain_click_panel_ok:
  assumes "panel_ok st" and "m \<in> set (sorted_media st)"
    and "\<not> (ctrl \<and> \<not> shift)"
    and "\<not> (shift \<and> shift_select_started_with_this_media st \<noteq> None)"
  shows "\<exists>st'. HitMedia_some E st m ctrl shift = Inr st' \<and> panel_ok st'
     \<and> sorted_media st' = sorted_media st"
proof -
  define st1 where "st1 = (if \<not> selected_flag st m
                    then DeselectSelect st (selected_media st) {m} else st)"
  have ok1: "panel_ok st1"
    unfolding st1_def using DeselectSelect_panel_ok[OF assms(1), of "{m}" "selected_media st"]
      assms(1,2) by simp
  have s1: "sorted_media st1 = sorted_media st" by (simp add: st1_def DeselectSelect_fields)
  have min1: "case Some m of None \<Rightarrow> True | Some m \<Rightarrow> m \<in> set (sorted_media st1)"
    using assms(2) s1 by simp
  from SetFocusedMedia_panel_ok_sorted[OF ok1 min1]
  obtain st2 where st2: "SetFocusedMedia st1 (Some m) = Inr st2" "panel_ok st2"
    "sorted_media st2 = sorted_media st1" by auto
  have run: "HitMedia_some E st m ctrl shift = Inr (StartShiftSelect st2 m)"
    unfolding HitMedia_some_def using assms(3,4) st2(1)
    by (simp only: if_False Let_def st1_def[symmetric] sum.case)
  have m2: "m \<in> set (sorted_media st2)" using assms(2) st2(3) s1 by simp
  have "sorted_media (StartShiftSelect st2 m) = sorted_media st"
    using st2(3) s1 by (simp add: StartShiftSelect_def)
  with run StartShiftSelect_panel_ok[OF st2(2) m2] show ?thesis by simp
qed

lemma shift_click_panel_ok:
  assumes "panel_ok st" and "m \<in> set (sorted_media st)"
    and "shift" and "shift_select_started_with_this_media st \<noteq> None"
  shows "\<exists>st'. HitMedia_some E st m ctrl shift = Inr st' \<and> panel_ok st'
     \<and> sorted_media st' = sorted_media st"
proof -
  from assms(4) obtain a where a: "shift_select_started_with_this_media st = Some a" by blast
  with assms(1) have ain: "a \<in> set (sorted_media st)" by (simp add: panel_ok_def)
  from index_of_in[OF ain]
  obtain i where i: "index_of (sorted_media st) a = Inr i" "i < length (sorted_media st)"
    by blast
  from index_of_in[OF assms(2)]
  obtain j where j: "index_of (sorted_media st) m = Inr j" "j < length (sorted_media st)"
    by blast
  define R where "R = (if i < j then set (py_slice (sorted_media st) i (j + 1))
              else set (py_slice (sorted_media st) j (i + 1)))"
  define D where "D = {x \<in> media_added_in_current_shift_select st. x \<notin> R}"
  define S where "S = {x \<in> R. \<not> selected_flag st x}"
  have R: "R = {sorted_media st ! k | k. min i j \<le> k \<and> k \<le> max i j}"
    unfolding R_def by (rule shift_range[OF i(2) j(2)])
  have Rsub: "R \<subseteq> set (sorted_media st)"
    unfolding R using i(2) j(2) by (auto simp: max_def split: if_splits)
  from shift_click_result[OF a i(1) j(1) R_def D_def S_def, of E ctrl]
  obtain st' where r: "HitMedia E st (Some m) ctrl True = Inr st'"
    "selected_media st' = (selected_media st - D) \<union> S"
    "selected_flag st' =
         (\<lambda>x. if x \<in> S then True else if x \<in> D then False else selected_flag st x)"
    "shift_select_started_with_this_media st' = Some a"
    "sorted_media st' = sorted_media st"
    "focused_media st' = Some m \<or> focused_media st' = focused_media st"
    by blast
  have sel: "selection_ok st'"
    using assms(1) Rsub unfolding selection_ok_def panel_ok_def r(2,3,5) S_def D_def by auto
  have foc: "case focused_media st' of None \<Rightarrow> True | Some f \<Rightarrow> f \<in> set (sorted_media st')"
    using r(6) assms(1,2) unfolding r(5) panel_ok_def by (auto split: option.splits)
  have "panel_ok st'"
    unfolding panel_ok_def using sel foc ain by (simp add: r(4,5))
  moreover have "HitMedia_some E st m ctrl shift = Inr st'"
    using r(1) assms(3) by (simp add: HitMedia_def)
  ultimately show ?thesis using r(5) by blast
qed

lemma HitMedia_some_panel_ok:
  assumes "panel_ok st" and "m \<in> set (sorted_media st)"
  shows "\<exists>st'. HitMedia_some E st m ctrl shift = Inr st' \<and> panel_ok st'
     \<and> sorted_media st' = sorted_media st"
proof (cases "ctrl \<and> \<not> shift")
  case True
  then show ?thesis using ctrl_click_panel_ok[OF assms, of ctrl shift E] by simp
next
  case nc: False
  show ?thesis
  proof (cases "shift \<and> shift_select_started_with_this_media st \<noteq> None")
    case True
    then show ?thesis using shift_click_panel_ok[OF assms, of shift E ctrl] by simp
  next
    case False
    from plain_click_panel_ok[OF assms nc False] show ?thesis .
  qed
qed

lemma Select_panel_ok:
  assumes "panel_ok st" and "matching_media \<subseteq> set (sorted_media st)"
  shows "\<exists>st'. Select E st matching_media = Inr st' \<and> panel_ok st'
     \<and> sorted_media st' = sorted_media st"
proof -
  define D where "D = selected_media st - matching_media"
  define S where "S = matching_media - selected_media st"
  define move_focus where
    "move_focus = (case focused_media st of None \<Rightarrow> True | Some f \<Rightarrow> f \<in> D)"
  define st1 where "st1 =
     (if move_focus \<or> (case shift_select_started_with_this_media st of
                          None \<Rightarrow> False | Some a \<Rightarrow> a \<in> D)
      then EndShiftSelect st else st)"
  define st2 where "st2 = DeselectSelect st1 D S"
  have ok1: "panel_ok st1"
    unfolding st1_def using assms(1) EndShiftSelect_panel_ok[OF assms(1)] by simp
  have s1: "sorted_media st1 = sorted_media st" by (simp add: st1_def EndShiftSelect_def)
  have Ssub: "S \<subseteq> set (sorted_media st1)" using assms(2) s1 by (auto simp: S_def)
  have ok2: "panel_ok st2" unfolding st2_def by (rule DeselectSelect_panel_ok[OF ok1 Ssub])
  have s2: "sorted_media st2 = sorted_media st" by (simp add: st2_def DeselectSelect_fields s1)
  define tail where "tail =
     (if move_focus
      then (if selected_media st2 = {} then SetFocusedMedia st2 None
            else (let media_visible = (\<exists>m \<in> selected_media st2. media_is_visible E m)
                  in if \<not> media_visible
                     then (case find (\<lambda>m. m \<in> selected_media st2) (sorted_media st2) of
                             None \<Rightarrow> Inr st2
                           | Some m \<Rightarrow> HitMedia_some E st2 m False False)
                     else Inr st2))
      else Inr st2)"
  have run: "Select E st matching_media = tail"
    unfolding Select_def tail_def Let_def st2_def st1_def move_focus_def D_def S_def ..
  from SetFocusedMedia_panel_ok_sorted[OF ok2, of None]
  obtain sf where sf: "SetFocusedMedia st2 None = Inr sf" "panel_ok sf"
    "sorted_media sf = sorted_media st2" by auto
  have fnd: "\<exists>st'. (case find (\<lambda>m. m \<in> selected_media st2) (sorted_media st2) of
                             None \<Rightarrow> Inr st2
                           | Some m \<Rightarrow> HitMedia_some E st2 m False False) = Inr st'
      \<and> panel_ok st' \<and> sorted_media st' = sorted_media st2"
  proof (cases "find (\<lambda>m. m \<in> selected_media st2) (sorted_media st2)")
    case None
    then show ?thesis using ok2 by simp
  next
    case (Some m)
    then have "m \<in> set (sorted_media st2)"
      by (auto simp: find_Some_iff)
    from HitMedia_some_panel_ok[OF ok2 this, of E False False] Some show ?thesis by simp
  qed
  have "\<exists>st'. tail = Inr st' \<and> panel_ok st' \<and> sorted_media st' = sorted_media st2"
    unfolding tail_def Let_def using sf fnd ok2 by auto
  with run s2 show ?thesis by simp
qed

lemma HitMedia_panel_ok:
  assumes "panel_ok st"
    and "case media of None \<Rightarrow> True | Some m \<Rightarrow> m \<in> set (sorted_media st)"
    and "file_filter_none_media E \<subseteq> set (sorted_media st)"
  shows "\<exists>st'. HitMedia E st media ctrl shift = Inr st' \<and> panel_ok st'
     \<and> sorted_media st' = sorted_media st"
proof (cases media)
  case (Some m)
  with assms(2) have "m \<in> set (sorted_media st)" by simp
  from HitMedia_some_panel_ok[OF assms(1) this, of E ctrl shift] Some
  show ?thesis by (simp add: HitMedia_def)
next
  case None
  show ?thesis
  proof (cases "\<not> ctrl \<and> \<not> shift")
    case False
    with None assms(1) show ?thesis by (auto simp: HitMedia_def)
  next
    case True
    from Select_panel_ok[OF assms(1,3), of E]
    obtain st1 where st1: "Select E st (file_filter_none_media E) = Inr st1" "panel_ok st1"
      "sorted_media st1 = sorted_media st" by blast
    from SetFocusedMedia_panel_ok_sorted[OF st1(2), of None]
    obtain st2 where st2: "SetFocusedMedia st1 None = Inr st2" "panel_ok st2"
      "sorted_media st2 = sorted_media st1" by auto
    have run: "HitMedia E st media ctrl shift = Inr (EndShiftSelect st2)"
      using None True st1(1) st2(1) by (simp add: HitMedia_def)
    have "sorted_media (EndShiftSelect st2) = sorted_media st"
      using st1(3) st2(3) by (simp add: EndShiftSelect_def)
    with run EndShiftSelect_panel_ok[OF st2(2)] show ?thesis by simp
  qed
qed

lemma SetFocusedMedia_cache_frame:
  fixes st :: media_panel_thumbnails
  assumes "SetFocusedMedia st media = Inr st'"
  shows "clean_canvas_pages st' = clean_canvas_pages st
     \<and> dirty_canvas_pages st' = dirty_canvas_pages st
     \<and> next_canvas_page st' = next_canvas_page st
     \<and> num_columns st' = num_columns st
     \<and> num_rows_per_canvas_page st' = num_rows_per_canvas_page st"
  using assms by (auto simp: SetFocusedMedia_def split: option.splits sum.splits)

lemma RemoveMediaDirectly_panel_ok:
  fixes st :: media_panel_thumbnails
  assumes "panel_ok st" and "cache_ok st" and "scroll_single_step E \<noteq> 0"
  shows "\<exists>st'. RemoveMediaDirectly E st my_size singleton_media collected_media = Inr st'
     \<and> panel_ok st' \<and> cache_ok st'
     \<and> sorted_media st' =
         filter (\<lambda>m. m \<notin> singleton_media \<union> collected_media) (sorted_media st)"
proof -
  define X where "X =
     (case focused_media st of
        None \<Rightarrow> Inr st
      | Some f \<Rightarrow> if f \<in> singleton_media \<or> f \<in> collected_media
                  then SetFocusedMedia st None else Inr st)"
  from SetFocusedMedia_panel_ok_sorted[OF assms(1), of None]
  obtain sf where sf: "SetFocusedMedia st None = Inr sf" "panel_ok sf" by auto
  from SetFocusedMedia_frame[OF sf(1)]
  have sff: "sorted_media sf = sorted_media st" "focused_media sf = None" by simp_all
  have sfc: "cache_ok sf"
    using SetFocusedMedia_cache_frame[OF sf(1)]
    by (intro cache_ok_panel_update[OF assms(2)]) simp_all
  have "\<exists>st1. X = Inr st1 \<and> panel_ok st1 \<and> cache_ok st1 \<and> sorted_media st1 = sorted_media st
     \<and> (case focused_media st1 of None \<Rightarrow> True
         | Some f \<Rightarrow> f \<notin> singleton_media \<union> collected_media)"
    unfolding X_def using sf sff sfc assms by (auto split: option.splits)
  then obtain st1 where st1: "X = Inr st1" "panel_ok st1" "cache_ok st1"
    "sorted_media st1 = sorted_media st"
    "case focused_media st1 of None \<Rightarrow> True | Some f \<Rightarrow> f \<notin> singleton_media \<union> collected_media"
    by blast
  define stb where
    "stb = EndShiftSelect (MediaList_RemoveMediaDirectly st1 singleton_media collected_media)"
  have nc: "num_columns stb \<noteq> 0"
    using st1(3)
    by (auto simp: stb_def cache_ok_def EndShiftSelect_def MediaList_RemoveMediaDirectly_def)
  from RecalculateVirtualSize_returns[OF assms(3) nc, of my_size]
  obtain v where rv: "RecalculateVirtualSize E stb my_size = Inr (stb\<lparr>widget_size := v\<rparr>)"
    by blast
  define st2 where "st2 = stb\<lparr>widget_size := v\<rparr>"
  have ok2: "panel_ok st2"
    using st1(2,5)
    by (auto simp: st2_def stb_def panel_ok_def selection_ok_def EndShiftSelect_def
        MediaList_RemoveMediaDirectly_def split: option.splits)
  have c2: "cache_ok st2"
    by (rule cache_ok_panel_update[OF st1(3)])
       (simp_all add: st2_def stb_def EndShiftSelect_def MediaList_RemoveMediaDirectly_def)
  have s2: "sorted_media st2 =
      filter (\<lambda>m. m \<notin> singleton_media \<union> collected_media) (sorted_media st)"
    by (simp add: st2_def stb_def EndShiftSelect_def MediaList_RemoveMediaDirectly_def st1(4))
  from DirtyAllPages_cache_ok[OF c2]
  obtain st3 where d: "DirtyAllPages st2 = Inr st3" "cache_ok st3" by blast
  from DirtyPages_panel_frame[OF d(1)[unfolded DirtyAllPages_def]]
  have fr: "sorted_media st3 = sorted_media st2" "selected_media st3 = selected_media st2"
    "selected_flag st3 = selected_flag st2" "focused_media st3 = focused_media st2"
    "shift_select_started_with_this_media st3 = shift_select_started_with_this_media st2"
    by simp_all
  have ok3: "panel_ok st3"
    using ok2 unfolding panel_ok_def selection_ok_def fr .
  have run: "RemoveMediaDirectly E st my_size singleton_media collected_media = Inr st3"
    unfolding RemoveMediaDirectly_def X_def[symmetric] using st1(1) rv d(1)
    by (simp add: stb_def[symmetric] st2_def[symmetric])
  show ?thesis using run ok3 d(2) fr(1) s2 by simp
qed

text \<open>
  C1. On a well-formed panel, every public selection-mutating operation returns and leaves
  the panel well-formed, so that afterwards the selection set is exactly the set of the
  items of the sorted sequence whose flag is set: a hit (on an item of the sequence or on
  empty space, with any modifiers), a select by filter (the filter matching items of the
  sequence) and a removal (with a scroll bar whose single step is not zero: the removal
  recalculates the virtual size, which divides by the step). A deselect/select pass that selects items of the sequence keeps
  the two in step: every item it selects has its flag set and is in the set, every item
  it only deselects has its flag cleared and is out of the set.
\<close>

theorem selection_mirrors_flags:
  fixes st :: media_panel_thumbnails
  assumes "panel_ok st" and "cache_ok st"
    and "case media of None \<Rightarrow> True | Some m \<Rightarrow> m \<in> set (sorted_media st)"
    and "file_filter_none_media E \<subseteq> set (sorted_media st)"
    and "matching_media \<subseteq> set (sorted_media st)"
    and "media_to_select \<subseteq> set (sorted_media st)"
  shows "selected_media st = {m \<in> set (sorted_media st). selected_flag st m}
     \<and> (\<exists>st'. HitMedia E st media ctrl shift = Inr st' \<and> panel_ok st'
           \<and> selected_media st' = {m \<in> set (sorted_media st'). selected_flag st' m})
     \<and> (\<exists>st'. Select E st matching_media = Inr st' \<and> panel_ok st'
           \<and> selected_media st' = {m \<in> set (sorted_media st'). selected_flag st' m})
     \<and> (scroll_single_step E \<noteq> 0 \<longrightarrow>
          (\<exists>st'. RemoveMediaDirectly E st my_size singleton_media collected_media = Inr st'
             \<and> panel_ok st' \<and> cache_ok st'
             \<and> selected_media st' = {m \<in> set (sorted_media st'). selected_flag st' m}))
     \<and> (selected_media (DeselectSelect st media_to_deselect media_to_select)
           = {m \<in> set (sorted_media (DeselectSelect st media_to_deselect media_to_select)).
                selected_flag (DeselectSelect st media_to_deselect media_to_select) m}
         \<and> (\<forall>m \<in> media_to_select.
               selected_flag (DeselectSelect st media_to_deselect media_to_select) m
               \<and> m \<in> selected_media (DeselectSelect st media_to_deselect media_to_select))
         \<and> (\<forall>m \<in> media_to_deselect - media_to_select.
               \<not> selected_flag (DeselectSelect st media_to_deselect media_to_select) m
               \<and> m \<notin> selected_media (DeselectSelect st media_to_deselect media_to_select)))"
proof -
  have 0: "selected_media st = {m \<in> set (sorted_media st). selected_flag st m}"
    using assms(1) by (simp add: panel_ok_def selection_ok_def)
  from HitMedia_panel_ok[OF assms(1,3,4), of ctrl shift]
  obtain h where h: "HitMedia E st media ctrl shift = Inr h" "panel_ok h" by blast
  then have 1: "\<exists>st'. HitMedia E st media ctrl shift = Inr st' \<and> panel_ok st'
           \<and> selected_media st' = {m \<in> set (sorted_media st'). selected_flag st' m}"
    by (auto simp: panel_ok_def selection_ok_def)
  from Select_panel_ok[OF assms(1,5), of E]
  obtain s where s: "Select E st matching_media = Inr s" "panel_ok s" by blast
  then have 2: "\<exists>st'. Select E st matching_media = Inr st' \<and> panel_ok st'
           \<and> selected_media st' = {m \<in> set (sorted_media st'). selected_flag st' m}"
    by (auto simp: panel_ok_def selection_ok_def)
  have 3: "scroll_single_step E \<noteq> 0 \<longrightarrow>
          (\<exists>st'. RemoveMediaDirectly E st my_size singleton_media collected_media = Inr st'
             \<and> panel_ok st' \<and> cache_ok st'
             \<and> selected_media st' = {m \<in> set (sorted_media st'). selected_flag st' m})"
  proof
    assume step: "scroll_single_step E \<noteq> 0"
    from RemoveMediaDirectly_panel_ok[OF assms(1,2) step, of my_size singleton_media
        collected_media]
    obtain r where r: "RemoveMediaDirectly E st my_size singleton_media collected_media = Inr r"
      "panel_ok r" "cache_ok r" by blast
    then show "\<exists>st'. RemoveMediaDirectly E st my_size singleton_media collected_media = Inr st'
             \<and> panel_ok st' \<and> cache_ok st'
             \<and> selected_media st' = {m \<in> set (sorted_media st'). selected_flag st' m}"
      by (auto simp: panel_ok_def selection_ok_def)
  qed
  have sok: "selection_ok st" using assms(1) by (simp add: panel_ok_def)
  from DeselectSelect_selection_ok[OF sok assms(6), of media_to_deselect]
  have 4: "selected_media (DeselectSelect st media_to_deselect media_to_select)
           = {m \<in> set (sorted_media (DeselectSelect st media_to_deselect media_to_select)).
                selected_flag (DeselectSelect st media_to_deselect media_to_select) m}"
    by (simp add: selection_ok_def)
  have 5: "\<forall>m \<in> media_to_select.
               selected_flag (DeselectSelect st media_to_deselect media_to_select) m
               \<and> m \<in> selected_media (DeselectSelect st media_to_deselect media_to_select)"
    by (simp add: DeselectSelect_fields)
  have 6: "\<forall>m \<in> media_to_deselect - media_to_select.
               \<not> selected_flag (DeselectSelect st media_to_deselect media_to_select) m
               \<and> m \<notin> selected_media (DeselectSelect st media_to_deselect media_to_select)"
    by (simp add: DeselectSelect_fields)
  from 0 1 2 3 4 5 6 show ?thesis by (intro conjI)
qed


theorem selection_mirrors_flags_witness:
  "(\<exists>st'. HitMedia example_env selected_panel (Some 12) True False = Inr st'
      \<and> selected_media st' = {m \<in> set (sorted_media st'). selected_flag st' m}
      \<and> selected_media st' = {10, 11, 12})
   \<and> (\<exists>st'. Select example_env selected_panel {13} = Inr st'
      \<and> selected_media st' = {m \<in> set (sorted_media st'). selected_flag st' m}
      \<and> selected_media st' = {13})
   \<and> (\<exists>st'. RemoveMediaDirectly example_env selected_panel (500, 400) {11} {} = Inr st'
      \<and> selected_media st' = {m \<in> set (sorted_media st'). selected_flag st' m}
      \<and> selected_media st' = {10}
      \<and> sorted_media st' = [10, 12, 13, 14, 15, 16])"
proof -
  have s: "sorted_media selected_panel = [10, 11, 12, 13, 14, 15, 16]"
    "selected_media selected_panel = {10, 11}"
    "selected_flag selected_panel = (\<lambda>m. m = 10 \<or> m = 11)"
    "focused_media selected_panel = Some 11"
    "shift_select_started_with_this_media selected_panel = None"
    by (simp_all add: selected_panel_def example_panel_def)
  have pok: "panel_ok selected_panel"
    by (auto simp: panel_ok_def selection_ok_def s)
  have cok: "cache_ok selected_panel"
    by (simp add: cache_ok_def selected_panel_def example_panel_def)
  have m: "case Some 12 of None \<Rightarrow> True | Some m \<Rightarrow> m \<in> set (sorted_media selected_panel)"
    by (simp add: s)
  have ff: "file_filter_none_media example_env \<subseteq> set (sorted_media selected_panel)"
    by (simp add: example_env_def)
  have mm: "{13} \<subseteq> set (sorted_media selected_panel)" by (simp add: s)
  have step: "scroll_single_step example_env \<noteq> 0" by (simp add: example_env_def)
  note T = selection_mirrors_flags[OF pok cok m ff mm mm,
      where ctrl = True and shift = False and my_size = "(500, 400)"
        and singleton_media = "{11}" and collected_media = "{}"
        and media_to_deselect = "{}"]
  from T[THEN conjunct2, THEN conjunct1]
  obtain h where h: "HitMedia example_env selected_panel (Some 12) True False = Inr h"
    "selected_media h = {m \<in> set (sorted_media h). selected_flag h m}"
    by blast
  have hv: "selected_media h = {10, 11, 12}"
    using h(1)
    by (auto simp: HitMedia_def HitMedia_some_def DeselectSelect_def StartShiftSelect_def
        example_env_def s)
  from T[THEN conjunct2, THEN conjunct2, THEN conjunct1]
  obtain sl where sl: "Select example_env selected_panel {13} = Inr sl"
    "selected_media sl = {m \<in> set (sorted_media sl). selected_flag sl m}"
    by blast
  have slv: "selected_media sl = {13}"
    using sl(1)
    by (auto simp: Select_def DeselectSelect_def EndShiftSelect_def example_env_def s
        Let_def split: if_splits)
  from T[THEN conjunct2, THEN conjunct2, THEN conjunct2, THEN conjunct1, rule_format, OF step]
  obtain r where r: "RemoveMediaDirectly example_env selected_panel (500, 400) {11} {} = Inr r"
    "selected_media r = {m \<in> set (sorted_media r). selected_flag r m}"
    by blast
  from RemoveMediaDirectly_panel_ok[OF pok cok step, of "(500, 400)" "{11}" "{}"] r(1)
  have rs: "sorted_media r = [10, 12, 13, 14, 15, 16]" by (simp add: s)
  have "selected_flag r = selected_flag selected_panel"
  proof -
    from SetFocusedMedia_panel_ok_sorted[OF pok, of None]
    obtain sf where sf: "SetFocusedMedia selected_panel None = Inr sf" by auto
    from SetFocusedMedia_frame[OF sf]
    have f1: "selected_flag sf = selected_flag selected_panel" by simp
    define stb where "stb = EndShiftSelect (MediaList_RemoveMediaDirectly sf {11} {})"
    have nc: "num_columns stb \<noteq> 0"
      using SetFocusedMedia_cache_frame[OF sf] cok
      by (auto simp: stb_def cache_ok_def EndShiftSelect_def MediaList_RemoveMediaDirectly_def)
    from RecalculateVirtualSize_returns[OF step nc, of "(500, 400)"]
    obtain v where v: "RecalculateVirtualSize example_env stb (500, 400)
        = Inr (stb\<lparr>widget_size := v\<rparr>)" by blast
    define st2 where "st2 = stb\<lparr>widget_size := v\<rparr>"
    have f2: "selected_flag st2 = selected_flag sf"
      by (simp add: st2_def stb_def EndShiftSelect_def MediaList_RemoveMediaDirectly_def)
    have "DirtyAllPages st2 = Inr r"
      using r(1) sf v
      by (simp add: RemoveMediaDirectly_def s stb_def[symmetric] st2_def[symmetric])
    from DirtyPages_panel_frame[OF this[unfolded DirtyAllPages_def]] f1 f2
    show ?thesis by simp
  qed
  then have rv: "selected_media r = {10}"
    unfolding r(2) rs by (auto simp: s)
  show ?thesis using h hv sl slv r rv rs by blast
qed

end
